theory Spec2Isabelle
  imports Main "HOL-Library.Word"
begin

unbundle bit_operations_syntax

section \<open>The shader-arena allocator of radv\_shader.c\<close>

text \<open>
  A shallow embedding of the segregated-fit allocator of \<^verbatim>\<open>src/amd/vulkan/radv_shader.c\<close>:
  \<^verbatim>\<open>get_size_class\<close>, \<^verbatim>\<open>remove_hole\<close>, \<^verbatim>\<open>add_hole\<close>, \<^verbatim>\<open>alloc_block_obj\<close>,
  \<^verbatim>\<open>free_block_obj\<close>, \<^verbatim>\<open>radv_alloc_shader_memory\<close>, \<^verbatim>\<open>get_hole\<close>,
  \<^verbatim>\<open>radv_free_shader_memory\<close>, \<^verbatim>\<open>radv_init_shader_arenas\<close> and \<^verbatim>\<open>radv_find_shader\<close>.

  Pointers are natural numbers (addresses), \<open>0\<close> is \<^verbatim>\<open>NULL\<close>. Every intrusive
  \<^verbatim>\<open>list_head\<close> list is the sequence of its elements in list order. The mutex is not
  modelled: every function runs from lock to unlock without interleaving.
\<close>

subsection \<open>Constants of the header\<close>

text \<open>
  The macros \<^verbatim>\<open>RADV_SHADER_ALLOC_ALIGNMENT\<close>, \<^verbatim>\<open>RADV_SHADER_ALLOC_MIN_ARENA_SIZE\<close>,
  \<^verbatim>\<open>RADV_SHADER_ALLOC_MAX_ARENA_SIZE_SHIFT\<close>, \<^verbatim>\<open>RADV_SHADER_ALLOC_MIN_SIZE_CLASS\<close> and
  \<^verbatim>\<open>RADV_SHADER_ALLOC_NUM_FREE_LISTS\<close> are defined in a header that is not among the
  sources, so the functions take them as a parameter.
\<close>

record alloc_consts =
  ALLOC_ALIGNMENT :: nat
  ALLOC_MIN_ARENA_SIZE :: nat
  ALLOC_MAX_ARENA_SIZE_SHIFT :: nat
  ALLOC_MIN_SIZE_CLASS :: nat
  ALLOC_NUM_FREE_LISTS :: nat

text \<open>
  What the code needs of the constants: the alignment is a power of two that fits 32 bits,
  the smallest arena is not empty and aligned, the largest arena size fits 32 bits, and there is at least one
  and at most 32 free lists (one bit of an \<^verbatim>\<open>unsigned\<close> each).
\<close>

definition consts_ok :: "alloc_consts \<Rightarrow> bool" where
  "consts_ok c \<longleftrightarrow>
     0 < ALLOC_ALIGNMENT c \<and> ALLOC_ALIGNMENT c dvd 2 ^ 32 \<and>
     0 < ALLOC_MIN_ARENA_SIZE c \<and> ALLOC_ALIGNMENT c dvd ALLOC_MIN_ARENA_SIZE c \<and>
     ALLOC_MIN_ARENA_SIZE c * 2 ^ ALLOC_MAX_ARENA_SIZE_SHIFT c < 2 ^ 32 \<and>
     0 < ALLOC_NUM_FREE_LISTS c \<and> ALLOC_NUM_FREE_LISTS c \<le> 32"

subsection \<open>Helpers of the utility headers\<close>

text \<open>32-bit unsigned arithmetic on \<open>nat\<close>, the wrap-around written out.\<close>

definition u32 :: "nat \<Rightarrow> nat" where
  "u32 x = x mod 2 ^ 32"

definition sub_u32 :: "nat \<Rightarrow> nat \<Rightarrow> nat" where
  "sub_u32 a b = (a + 2 ^ 32 - b mod 2 ^ 32) mod 2 ^ 32"

text \<open>
  Modelled from the spec: \<^verbatim>\<open>align\<close> (utility header, not among the sources) rounds its
  argument up to the next multiple of the alignment; the result is stored in the
  \<^verbatim>\<open>uint32_t size\<close>, so it is taken modulo \<open>2 ^ 32\<close>.
\<close>

definition align_u32 :: "nat \<Rightarrow> nat \<Rightarrow> nat" where
  "align_u32 v a = u32 ((v + a - 1) div a * a)"

text \<open>
  Modelled from the spec: \<^verbatim>\<open>util_logbase2\<close> is \<open>floor (log2 n)\<close> and
  \<^verbatim>\<open>util_logbase2_ceil\<close> is \<open>ceil (log2 n)\<close> (utility header, not among the sources);
  both are 0 at \<open>n \<le> 1\<close>.
\<close>

fun util_logbase2 :: "nat \<Rightarrow> nat" where
  "util_logbase2 n = (if n < 2 then 0 else Suc (util_logbase2 (n div 2)))"

declare util_logbase2.simps [simp del]

definition util_logbase2_ceil :: "nat \<Rightarrow> nat" where
  "util_logbase2_ceil n = (if n \<le> 1 then 0 else 1 + util_logbase2 (n - 1))"

text \<open>\<^verbatim>\<open>ffs\<close> of the C library: one plus the index of the lowest set bit, 0 for 0.\<close>

definition ffs :: "32 word \<Rightarrow> nat" where
  "ffs w = (case find (bit w) [0..<32] of None \<Rightarrow> 0 | Some i \<Rightarrow> Suc i)"

text \<open>\<^verbatim>\<open>BITFIELD_MASK(b)\<close>: the lowest \<open>b\<close> bits set, for \<open>b \<le> 32\<close>.\<close>

definition BITFIELD_MASK :: "nat \<Rightarrow> 32 word" where
  "BITFIELD_MASK b = (if b = 32 then NOT 0 else push_bit (b mod 32) 1 - 1)"

subsection \<open>Data\<close>

text \<open>
  \<^verbatim>\<open>freelist\<close> of a block: a hole has its \<^verbatim>\<open>freelist\<close> node linked into a free list
  (\<^verbatim>\<open>freelist.prev\<close> is not \<^verbatim>\<open>NULL\<close>); an allocation has \<^verbatim>\<open>freelist.prev = NULL\<close> and
  \<^verbatim>\<open>freelist.next\<close> is the pointer associated with it.
\<close>

datatype freelist_node = Linked | Unlinked nat

record arena_block =
  blk :: nat
  offset :: nat
  size_b :: nat
  freelist :: freelist_node

record radeon_winsys_bo =
  bo_handle :: nat
  bo_va :: nat
  bo_size :: nat

record shader_arena =
  arena_ptr :: nat
  bo :: radeon_winsys_bo
  entries :: "arena_block list"

text \<open>
  The device: the live buffers of the winsys \<^verbatim>\<open>device->ws\<close>, the arenas, the shift of the
  next arena, the mask of the non-empty free lists, the free lists (pointers to holes) and the
  pool of unused block objects. \<^verbatim>\<open>shader_arena_shift\<close> is declared in a header that is
  not among the sources; it is a counter, modelled as a natural number.
\<close>

record device =
  ws :: "radeon_winsys_bo list"
  shader_arenas :: "shader_arena list"
  shader_arena_shift :: nat
  shader_free_list_mask :: "32 word"
  shader_free_lists :: "nat list list"
  shader_block_obj_pool :: "nat list"

text \<open>
  What the environment answers during one call of \<^verbatim>\<open>radv_alloc_shader_memory\<close>:
  \<^verbatim>\<open>calloc\<close> of the arena, \<^verbatim>\<open>buffer_create\<close> (handle and address of the new buffer),
  \<^verbatim>\<open>buffer_map\<close>, and the first and second \<^verbatim>\<open>malloc\<close> of a block object.
  \<open>None\<close> and \<open>False\<close> are the failures.
\<close>

record alloc_env =
  env_calloc :: "nat option"
  env_buffer_create :: "(nat \<times> nat) option"
  env_buffer_map :: bool
  env_malloc1 :: "nat option"
  env_malloc2 :: "nat option"

subsection \<open>Dereferencing a block pointer\<close>

fun split_first :: "('a \<Rightarrow> bool) \<Rightarrow> 'a list \<Rightarrow> ('a list \<times> 'a \<times> 'a list) option" where
  "split_first P [] = None"
| "split_first P (x # xs) =
     (if P x then Some ([], x, xs)
      else (case split_first P xs of None \<Rightarrow> None | Some (l, y, r) \<Rightarrow> Some (x # l, y, r)))"

definition block_ptrs :: "shader_arena \<Rightarrow> nat list" where
  "block_ptrs a = map blk (entries a)"

text \<open>
  \<open>locate as p\<close>: the arena of the block at address \<open>p\<close> (\<^verbatim>\<open>p->arena\<close>) with the arenas
  before and after it, and the block with the blocks before and after it in
  \<^verbatim>\<open>arena->entries\<close> (\<^verbatim>\<open>p->list.prev\<close>, \<^verbatim>\<open>p->list.next\<close>). \<open>None\<close>: no block of any
  arena is at \<open>p\<close>, the pointer dangles.
\<close>

definition locate ::
  "shader_arena list \<Rightarrow> nat \<Rightarrow>
     (shader_arena list \<times> shader_arena \<times> shader_arena list \<times>
      arena_block list \<times> arena_block \<times> arena_block list) option" where
  "locate as p =
     (case split_first (\<lambda>a. p \<in> set (block_ptrs a)) as of
        None \<Rightarrow> None
      | Some (apre, a, apost) \<Rightarrow>
          (case split_first (\<lambda>b. blk b = p) (entries a) of
             None \<Rightarrow> None
           | Some (pre, b, post) \<Rightarrow> Some (apre, a, apost, pre, b, post)))"

subsection \<open>Size classes and free lists\<close>

definition get_size_class :: "alloc_consts \<Rightarrow> nat \<Rightarrow> bool \<Rightarrow> nat" where
  "get_size_class c sz round_up =
     (let l = (if round_up then util_logbase2_ceil sz else util_logbase2 sz);
          size_class = max l (ALLOC_MIN_SIZE_CLASS c) - ALLOC_MIN_SIZE_CLASS c
      in min size_class (ALLOC_NUM_FREE_LISTS c - 1))"

text \<open>
  \<^verbatim>\<open>list_del(&hole->freelist)\<close> unlinks the hole from the free list it is in; the bit of its
  size class is cleared when that class's list is empty afterwards.
\<close>

definition remove_hole :: "alloc_consts \<Rightarrow> device \<Rightarrow> arena_block \<Rightarrow> device" where
  "remove_hole c dev hole =
     (let size_class = get_size_class c (size_b hole) False;
          lists = map (removeAll (blk hole)) (shader_free_lists dev)
      in dev\<lparr>shader_free_lists := lists,
             shader_free_list_mask :=
               (if lists ! size_class = []
                then shader_free_list_mask dev AND NOT (push_bit size_class 1)
                else shader_free_list_mask dev)\<rparr>)"

definition add_hole :: "alloc_consts \<Rightarrow> device \<Rightarrow> arena_block \<Rightarrow> device" where
  "add_hole c dev hole =
     (let size_class = get_size_class c (size_b hole) False
      in dev\<lparr>shader_free_lists :=
               (shader_free_lists dev)[size_class := shader_free_lists dev ! size_class @ [blk hole]],
             shader_free_list_mask := shader_free_list_mask dev OR push_bit size_class 1\<rparr>)"

subsection \<open>The pool of block objects\<close>

text \<open>
  \<open>alloc_block_obj dev m\<close>: the first object of the pool when there is one, else the answer
  \<open>m\<close> of \<^verbatim>\<open>malloc\<close>.
\<close>

definition alloc_block_obj :: "device \<Rightarrow> nat option \<Rightarrow> nat option \<times> device" where
  "alloc_block_obj dev m =
     (case shader_block_obj_pool dev of
        [] \<Rightarrow> (m, dev)
      | b # rest \<Rightarrow> (Some b, dev\<lparr>shader_block_obj_pool := rest\<rparr>))"

definition free_block_obj :: "device \<Rightarrow> nat \<Rightarrow> device" where
  "free_block_obj dev b = dev\<lparr>shader_block_obj_pool := b # shader_block_obj_pool dev\<rparr>"

text \<open>
  The objects that the first call of \<open>alloc_block_obj\<close> during an allocation returns, and
  the second call after it.
\<close>

definition first_obj :: "device \<Rightarrow> alloc_env \<Rightarrow> nat option" where
  "first_obj dev e = fst (alloc_block_obj dev (env_malloc1 e))"

definition second_obj :: "device \<Rightarrow> alloc_env \<Rightarrow> nat option" where
  "second_obj dev e =
     fst (alloc_block_obj (snd (alloc_block_obj dev (env_malloc1 e))) (env_malloc2 e))"

subsection \<open>Allocation\<close>

text \<open>
  The loop over the free list of the class found: the first hole that is not smaller than the
  request. \<open>None\<close>: a pointer of the list dangles; \<open>Some None\<close>: the loop ends without a
  hole.
\<close>

fun find_fit :: "shader_arena list \<Rightarrow> nat \<Rightarrow> nat list \<Rightarrow> nat option option" where
  "find_fit as sz [] = Some None"
| "find_fit as sz (h # hs) =
     (case locate as h of
        None \<Rightarrow> None
      | Some (apre, a, apost, pre, hole, post) \<Rightarrow>
          if size_b hole < sz then find_fit as sz hs else Some (Some h))"

text \<open>The body of the loop at the hole found: the hole is taken whole or split.\<close>

definition alloc_from_hole ::
  "alloc_consts \<Rightarrow> alloc_env \<Rightarrow> device \<Rightarrow> nat \<Rightarrow> nat \<Rightarrow> nat \<Rightarrow> (nat option \<times> device) option" where
  "alloc_from_hole c e dev sz ptr h =
     (case locate (shader_arenas dev) h of
        None \<Rightarrow> None
      | Some (apre, a, apost, pre, hole, post) \<Rightarrow>
          if sz = size_b hole then
            (let dev1 = remove_hole c dev hole
             in Some (Some h,
                  dev1\<lparr>shader_arenas :=
                    apre @ a\<lparr>entries := pre @ hole\<lparr>freelist := Unlinked ptr\<rparr> # post\<rparr> # apost\<rparr>))
          else
            (case alloc_block_obj dev (env_malloc1 e) of
               (None, dev1) \<Rightarrow> Some (None, dev1)
             | (Some alloc, dev1) \<Rightarrow>
                 (let ablk = \<lparr>blk = alloc, offset = offset hole, size_b = sz,
                               freelist = Unlinked ptr\<rparr>;
                      dev2 = remove_hole c dev1 hole;
                      hole' = hole\<lparr>offset := u32 (offset hole + sz),
                                   size_b := sub_u32 (size_b hole) sz\<rparr>;
                      dev3 = add_hole c dev2 hole'
                  in Some (Some alloc,
                       dev3\<lparr>shader_arenas :=
                         apre @ a\<lparr>entries := pre @ ablk # hole' # post\<rparr> # apost\<rparr>))))"

text \<open>
  The rest of the function: a new arena. Every failure goes to \<^verbatim>\<open>fail\<close>, which frees the
  block objects with \<^verbatim>\<open>free\<close> (they do not go back to the pool), destroys the buffer when
  it was created and frees the arena.
\<close>

definition buffer_destroy :: "device \<Rightarrow> radeon_winsys_bo \<Rightarrow> device" where
  "buffer_destroy dev b = dev\<lparr>ws := removeAll b (ws dev)\<rparr>"

definition arena_size_of :: "alloc_consts \<Rightarrow> device \<Rightarrow> nat \<Rightarrow> nat" where
  "arena_size_of c dev sz =
     max (u32 (ALLOC_MIN_ARENA_SIZE c *
            2 ^ min (ALLOC_MAX_ARENA_SIZE_SHIFT c) (shader_arena_shift dev))) sz"

definition alloc_new_arena ::
  "alloc_consts \<Rightarrow> alloc_env \<Rightarrow> device \<Rightarrow> nat \<Rightarrow> nat \<Rightarrow> nat option \<times> device" where
  "alloc_new_arena c e dev sz ptr =
     (case env_calloc e of
        None \<Rightarrow> (None, dev)
      | Some arena \<Rightarrow>
          (let arena_size = arena_size_of c dev sz
           in case env_buffer_create e of
                None \<Rightarrow> (None, dev)
              | Some (handle, va) \<Rightarrow>
                  (let b = \<lparr>bo_handle = handle, bo_va = va, bo_size = arena_size\<rparr>;
                       dev0 = dev\<lparr>ws := ws dev @ [b]\<rparr>
                   in if \<not> env_buffer_map e then (None, buffer_destroy dev0 b)
                      else
                        (let (alloc, dev1) = alloc_block_obj dev0 (env_malloc1 e);
                             (hole, dev2) =
                               (if arena_size - sz > 0 then alloc_block_obj dev1 (env_malloc2 e)
                                else (alloc, dev1))
                         in case (alloc, hole) of
                              (Some al, Some ho) \<Rightarrow>
                                (let ablk = \<lparr>blk = al, offset = 0, size_b = sz,
                                              freelist = Unlinked ptr\<rparr>;
                                     hblk = \<lparr>blk = ho, offset = sz, size_b = arena_size - sz,
                                              freelist = Linked\<rparr>;
                                     dev3 = (if ho \<noteq> al then add_hole c dev2 hblk else dev2);
                                     ar = \<lparr>arena_ptr = arena, bo = b,
                                            entries = (if ho \<noteq> al then [ablk, hblk] else [ablk])\<rparr>
                                 in (Some al,
                                     dev3\<lparr>shader_arena_shift := shader_arena_shift dev + 1,
                                          shader_arenas := shader_arenas dev @ [ar]\<rparr>))
                            | _ \<Rightarrow> (None, buffer_destroy dev2 b)))))"

text \<open>
  \<open>radv_alloc_shader_memory c e dev sz ptr\<close>: \<open>None\<close> when a pointer of a free list dangles
  or the mask names a list that does not exist (undefined behaviour of the C code), else the
  pointer returned (\<open>None\<close> for \<^verbatim>\<open>NULL\<close>) and the device afterwards.
\<close>

definition radv_alloc_shader_memory ::
  "alloc_consts \<Rightarrow> alloc_env \<Rightarrow> device \<Rightarrow> nat \<Rightarrow> nat \<Rightarrow> (nat option \<times> device) option" where
  "radv_alloc_shader_memory c e dev sz0 ptr =
     (let sz = align_u32 sz0 (ALLOC_ALIGNMENT c);
          free_list_mask = BITFIELD_MASK (ALLOC_NUM_FREE_LISTS c);
          size_class = ffs (shader_free_list_mask dev AND
                            push_bit (get_size_class c sz True) free_list_mask);
          found = (if size_class \<noteq> 0 then
                     (if size_class - 1 < length (shader_free_lists dev)
                      then find_fit (shader_arenas dev) sz (shader_free_lists dev ! (size_class - 1))
                      else None)
                   else Some None)
      in case found of
           None \<Rightarrow> None
         | Some (Some h) \<Rightarrow> alloc_from_hole c e dev sz ptr h
         | Some None \<Rightarrow> Some (alloc_new_arena c e dev sz ptr))"

text \<open>
  The word that \<^verbatim>\<open>ffs\<close> scans in \<^verbatim>\<open>radv_alloc_shader_memory\<close>: the bits of the
  non-empty free lists at or above the size class of the request.
\<close>

definition search_word :: "alloc_consts \<Rightarrow> device \<Rightarrow> nat \<Rightarrow> 32 word" where
  "search_word c dev sz =
     shader_free_list_mask dev AND
       push_bit (get_size_class c sz True) (BITFIELD_MASK (ALLOC_NUM_FREE_LISTS c))"

subsection \<open>Release\<close>

text \<open>
  \<open>get_hole\<close>: the neighbour when there is one (the list head is not a block) and it is a
  hole.
\<close>

definition get_hole :: "arena_block option \<Rightarrow> arena_block option" where
  "get_hole nb = (case nb of None \<Rightarrow> None
                  | Some b \<Rightarrow> (if freelist b = Linked then Some b else None))"

definition last_opt :: "'a list \<Rightarrow> 'a option" where
  "last_opt xs = (if xs = [] then None else Some (last xs))"

definition hd_opt :: "'a list \<Rightarrow> 'a option" where
  "hd_opt xs = (case xs of [] \<Rightarrow> None | x # _ \<Rightarrow> Some x)"

text \<open>
  \<open>radv_free_shader_memory c dev p\<close>: \<open>None\<close> when \<open>p\<close> is not the address of an allocation
  of an arena (the C code's behaviour is undefined then), else the device afterwards.
\<close>

definition radv_free_shader_memory :: "alloc_consts \<Rightarrow> device \<Rightarrow> nat \<Rightarrow> device option" where
  "radv_free_shader_memory c dev p =
     (case locate (shader_arenas dev) p of
        None \<Rightarrow> None
      | Some (apre, a, apost, pre, alloc, post) \<Rightarrow>
          if freelist alloc = Linked then None
          else
            (let hole_prev = get_hole (last_opt pre);
                 hole_next = get_hole (hd_opt post);
                 (pre1, hole1, dev1) =
                   (case hole_prev of
                      None \<Rightarrow> (pre, alloc, dev)
                    | Some hp \<Rightarrow>
                        (butlast pre, hp\<lparr>size_b := u32 (size_b hp + size_b alloc)\<rparr>,
                         free_block_obj (remove_hole c dev hp) (blk alloc)));
                 (post2, hole2, dev2) =
                   (case hole_next of
                      None \<Rightarrow> (post, hole1, dev1)
                    | Some hn \<Rightarrow>
                        (tl post,
                         hn\<lparr>offset := sub_u32 (offset hn) (size_b hole1),
                            size_b := u32 (size_b hn + size_b hole1)\<rparr>,
                         free_block_obj (remove_hole c dev1 hn) (blk hole1)))
             in if pre1 = [] \<and> post2 = [] then
                  Some ((buffer_destroy (free_block_obj dev2 (blk hole2)) (bo a))
                          \<lparr>shader_arenas := apre @ apost\<rparr>)
                else
                  Some ((add_hole c dev2 hole2)
                          \<lparr>shader_arenas :=
                             apre @ a\<lparr>entries := pre1 @ hole2\<lparr>freelist := Linked\<rparr> # post2\<rparr> # apost\<rparr>)))"

text \<open>
  The two merging steps of \<^verbatim>\<open>radv_free_shader_memory\<close> on their own, from the blocks
  before (after) the block being released, that block and the device to the same three
  afterwards.
\<close>

definition merge_prev ::
  "alloc_consts \<Rightarrow> arena_block list \<times> arena_block \<times> device \<Rightarrow>
     arena_block list \<times> arena_block \<times> device" where
  "merge_prev c s =
     (case s of (pre, hole, dev) \<Rightarrow>
        (case get_hole (last_opt pre) of
           None \<Rightarrow> (pre, hole, dev)
         | Some hp \<Rightarrow>
             (butlast pre, hp\<lparr>size_b := u32 (size_b hp + size_b hole)\<rparr>,
              free_block_obj (remove_hole c dev hp) (blk hole))))"

definition merge_next ::
  "alloc_consts \<Rightarrow> arena_block list \<times> arena_block \<times> device \<Rightarrow>
     arena_block list \<times> arena_block \<times> device" where
  "merge_next c s =
     (case s of (post, hole, dev) \<Rightarrow>
        (case get_hole (hd_opt post) of
           None \<Rightarrow> (post, hole, dev)
         | Some hn \<Rightarrow>
             (tl post,
              hn\<lparr>offset := sub_u32 (offset hn) (size_b hole),
                 size_b := u32 (size_b hn + size_b hole)\<rparr>,
              free_block_obj (remove_hole c dev hn) (blk hole))))"

subsection \<open>Finding the shader at an address\<close>

text \<open>
  \<^verbatim>\<open>radv_find_shader\<close> reads two kinds of objects besides the device: the pipeline that
  the pointer of an allocation is cast to, of which it reads the array \<^verbatim>\<open>shaders\<close>
  (pointers to shaders, \<open>0\<close> for \<^verbatim>\<open>NULL\<close>; its length
  \<^verbatim>\<open>MESA_VULKAN_SHADER_STAGES\<close> is defined outside the sources and is the length of the
  list here), and the shaders, of which it reads \<^verbatim>\<open>va\<close> and \<^verbatim>\<open>code_size\<close>. The memory
  maps the addresses at which there is such an object to it.
\<close>

record radv_shader =
  shader_va :: nat
  shader_code_size :: nat

record memory =
  pipeline_at :: "nat \<rightharpoonup> nat list"
  shader_at :: "nat \<rightharpoonup> radv_shader"

text \<open>64-bit unsigned arithmetic on \<open>nat\<close>.\<close>

definition u64 :: "nat \<Rightarrow> nat" where
  "u64 x = x mod 2 ^ 64"

text \<open>
  The test of the inner loop: the block is an allocation (\<^verbatim>\<open>!block->freelist.prev\<close>) and
  \<^verbatim>\<open>pc >= start && pc < start + block->size\<close>.
\<close>

definition block_hit :: "shader_arena \<Rightarrow> arena_block \<Rightarrow> nat \<Rightarrow> bool" where
  "block_hit a b pc \<longleftrightarrow>
     (let start = u64 (bo_va (bo a) + offset b)
      in freelist b \<noteq> Linked \<and> start \<le> pc \<and> pc < u64 (start + size_b b))"

text \<open>
  The loop over \<^verbatim>\<open>pipeline->shaders\<close>: the first shader whose code range holds \<open>pc\<close>.
  \<open>None\<close>: a pointer of the array is not the address of a shader. \<^verbatim>\<open>align\<close> is the
  32-bit rounding \<open>align_u32\<close> of the allocation, so the range of a shader whose
  \<^verbatim>\<open>code_size\<close> is above \<open>2 ^ 32 - ALIGNMENT\<close> is empty.
\<close>

fun scan_shaders ::
  "alloc_consts \<Rightarrow> (nat \<rightharpoonup> radv_shader) \<Rightarrow> nat \<Rightarrow> nat list \<Rightarrow> nat option option" where
  "scan_shaders c sh pc [] = Some None"
| "scan_shaders c sh pc (s # ss) =
     (if s = 0 then scan_shaders c sh pc ss
      else (case sh s of
              None \<Rightarrow> None
            | Some shader \<Rightarrow>
                if shader_va shader \<le> pc \<and>
                   pc < u64 (shader_va shader +
                             align_u32 (shader_code_size shader) (ALLOC_ALIGNMENT c))
                then Some (Some s)
                else scan_shaders c sh pc ss))"

text \<open>
  The loop over the blocks of an arena. At an allocation that holds \<open>pc\<close> the pointer of
  the allocation is read as a pipeline; when none of its shaders holds \<open>pc\<close> the loop goes
  on with the next block. \<open>None\<close>: the pointer is not the address of a pipeline (it is
  \<^verbatim>\<open>NULL\<close>, say).
\<close>

fun find_blocks ::
  "alloc_consts \<Rightarrow> memory \<Rightarrow> nat \<Rightarrow> shader_arena \<Rightarrow> arena_block list \<Rightarrow> nat option option" where
  "find_blocks c m pc a [] = Some None"
| "find_blocks c m pc a (b # bs) =
     (if block_hit a b pc then
        (case freelist b of
           Linked \<Rightarrow> find_blocks c m pc a bs
         | Unlinked p \<Rightarrow>
             (case pipeline_at m p of
                None \<Rightarrow> None
              | Some shaders \<Rightarrow>
                  (case scan_shaders c (shader_at m) pc shaders of
                     None \<Rightarrow> None
                   | Some (Some s) \<Rightarrow> Some (Some s)
                   | Some None \<Rightarrow> find_blocks c m pc a bs)))
      else find_blocks c m pc a bs)"

fun find_arenas ::
  "alloc_consts \<Rightarrow> memory \<Rightarrow> nat \<Rightarrow> shader_arena list \<Rightarrow> nat option option" where
  "find_arenas c m pc [] = Some None"
| "find_arenas c m pc (a # as) =
     (case find_blocks c m pc a (entries a) of
        None \<Rightarrow> None
      | Some (Some s) \<Rightarrow> Some (Some s)
      | Some None \<Rightarrow> find_arenas c m pc as)"

text \<open>
  \<open>radv_find_shader c m dev pc\<close>: \<open>None\<close> when the C code dereferences a pointer that is
  not the address of an object, else the shader returned (\<open>None\<close> for \<^verbatim>\<open>NULL\<close>).
\<close>

definition radv_find_shader ::
  "alloc_consts \<Rightarrow> memory \<Rightarrow> device \<Rightarrow> nat \<Rightarrow> nat option option" where
  "radv_find_shader c m dev pc = find_arenas c m pc (shader_arenas dev)"

subsection \<open>Initialisation\<close>

definition radv_init_shader_arenas :: "alloc_consts \<Rightarrow> device \<Rightarrow> device" where
  "radv_init_shader_arenas c dev =
     dev\<lparr>shader_free_list_mask := 0,
         shader_arenas := [],
         shader_block_obj_pool := [],
         shader_free_lists := replicate (ALLOC_NUM_FREE_LISTS c) []\<rparr>"

subsection \<open>Properties of a device\<close>

definition all_blocks :: "shader_arena list \<Rightarrow> arena_block list" where
  "all_blocks as = concat (map entries as)"

text \<open>The blocks of an arena follow each other: each starts where the one before ends.\<close>

fun offsets_ok :: "nat \<Rightarrow> arena_block list \<Rightarrow> bool" where
  "offsets_ok s [] = True"
| "offsets_ok s (b # bs) = (offset b = s \<and> offsets_ok (s + size_b b) bs)"

fun no_adjacent_holes :: "arena_block list \<Rightarrow> bool" where
  "no_adjacent_holes [] = True"
| "no_adjacent_holes [b] = True"
| "no_adjacent_holes (b # b' # bs) =
     (\<not> (freelist b = Linked \<and> freelist b' = Linked) \<and> no_adjacent_holes (b' # bs))"

text \<open>
  The tiling of an arena as the specification words it: the first block starts at 0, each
  block ends where the next starts, the last block ends at the size of the buffer.
\<close>

definition tiling :: "shader_arena \<Rightarrow> bool" where
  "tiling a \<longleftrightarrow>
     entries a \<noteq> [] \<and> offset (hd (entries a)) = 0 \<and>
     (\<forall>i. Suc i < length (entries a) \<longrightarrow>
        offset (entries a ! i) + size_b (entries a ! i) = offset (entries a ! Suc i)) \<and>
     offset (last (entries a)) + size_b (last (entries a)) = bo_size (bo a)"

text \<open>
  What holds of every arena of a device: its blocks tile the buffer and the buffer fits 32
  bits; no two holes are neighbours and one block at least is an allocation; offsets and sizes
  are aligned.
\<close>

definition arena_tiles :: "shader_arena \<Rightarrow> bool" where
  "arena_tiles a \<longleftrightarrow>
     offsets_ok 0 (entries a) \<and>
     sum_list (map size_b (entries a)) = bo_size (bo a) \<and>
     0 < bo_size (bo a) \<and> bo_size (bo a) < 2 ^ 32"

definition arena_coalesced :: "shader_arena \<Rightarrow> bool" where
  "arena_coalesced a \<longleftrightarrow>
     no_adjacent_holes (entries a) \<and> (\<exists>b\<in>set (entries a). freelist b \<noteq> Linked)"

definition arena_aligned :: "alloc_consts \<Rightarrow> shader_arena \<Rightarrow> bool" where
  "arena_aligned c a \<longleftrightarrow>
     (\<forall>b\<in>set (entries a). ALLOC_ALIGNMENT c dvd offset b \<and> ALLOC_ALIGNMENT c dvd size_b b)"

definition arena_inv :: "alloc_consts \<Rightarrow> shader_arena \<Rightarrow> bool" where
  "arena_inv c a \<longleftrightarrow> arena_tiles a \<and> arena_coalesced a \<and> arena_aligned c a"

text \<open>The addresses of the holes of size class \<open>k\<close> among the blocks \<open>bs\<close>.\<close>

definition hole_ptrs :: "alloc_consts \<Rightarrow> arena_block list \<Rightarrow> nat \<Rightarrow> nat set" where
  "hole_ptrs c bs k =
     blk ` {b \<in> set bs. freelist b = Linked \<and> get_size_class c (size_b b) False = k}"

definition lists_ok :: "nat \<Rightarrow> (nat \<Rightarrow> nat set) \<Rightarrow> nat list list \<Rightarrow> bool" where
  "lists_ok n H fl \<longleftrightarrow> length fl = n \<and> (\<forall>k<n. distinct (fl ! k) \<and> set (fl ! k) = H k)"

definition mask_ok :: "nat \<Rightarrow> nat list list \<Rightarrow> 32 word \<Rightarrow> bool" where
  "mask_ok n fl m \<longleftrightarrow> (\<forall>k. bit m k \<longleftrightarrow> k < n \<and> fl ! k \<noteq> [])"

text \<open>The address range of a buffer, and two buffers that share no address.\<close>

definition bo_disjoint :: "radeon_winsys_bo \<Rightarrow> radeon_winsys_bo \<Rightarrow> bool" where
  "bo_disjoint b b' \<longleftrightarrow> bo_va b + bo_size b \<le> bo_va b' \<or> bo_va b' + bo_size b' \<le> bo_va b"

fun pairwise_disjoint :: "radeon_winsys_bo list \<Rightarrow> bool" where
  "pairwise_disjoint [] = True"
| "pairwise_disjoint (b # bs) = ((\<forall>b'\<in>set bs. bo_disjoint b b') \<and> pairwise_disjoint bs)"

definition dev_inv :: "alloc_consts \<Rightarrow> device \<Rightarrow> bool" where
  "dev_inv c dev \<longleftrightarrow>
     (\<forall>a\<in>set (shader_arenas dev). arena_inv c a) \<and>
     distinct (map blk (all_blocks (shader_arenas dev)) @ shader_block_obj_pool dev) \<and>
     distinct (map arena_ptr (shader_arenas dev)) \<and>
     lists_ok (ALLOC_NUM_FREE_LISTS c) (hole_ptrs c (all_blocks (shader_arenas dev)))
       (shader_free_lists dev) \<and>
     mask_ok (ALLOC_NUM_FREE_LISTS c) (shader_free_lists dev) (shader_free_list_mask dev) \<and>
     (\<forall>a\<in>set (shader_arenas dev). bo a \<in> set (ws dev)) \<and>
     pairwise_disjoint (map bo (shader_arenas dev))"

text \<open>
  What holds during \<^verbatim>\<open>radv_free_shader_memory\<close>, while the block \<open>hole\<close> (between the
  blocks \<open>pre\<close> and \<open>post\<close> of the arena \<open>a\<close>) is in no free list: the blocks tile the
  buffer and are aligned, the free lists hold the holes among all other blocks, and the
  addresses of the block objects are distinct.
\<close>

definition pending ::
  "alloc_consts \<Rightarrow> shader_arena list \<Rightarrow> shader_arena \<Rightarrow> shader_arena list \<Rightarrow>
     arena_block list \<Rightarrow> arena_block \<Rightarrow> arena_block list \<Rightarrow> device \<Rightarrow> bool" where
  "pending c apre a apost pre hole post dev \<longleftrightarrow>
     arena_tiles (a\<lparr>entries := pre @ hole # post\<rparr>) \<and>
     arena_aligned c (a\<lparr>entries := pre @ hole # post\<rparr>) \<and>
     no_adjacent_holes pre \<and> no_adjacent_holes post \<and>
     lists_ok (ALLOC_NUM_FREE_LISTS c)
       (hole_ptrs c ((all_blocks apre @ pre) @ (post @ all_blocks apost))) (shader_free_lists dev) \<and>
     mask_ok (ALLOC_NUM_FREE_LISTS c) (shader_free_lists dev) (shader_free_list_mask dev) \<and>
     distinct (map blk ((all_blocks apre @ pre) @ [hole] @ (post @ all_blocks apost)) @
               shader_block_obj_pool dev)"

text \<open>
  The first address of a block (\<^verbatim>\<open>radv_buffer_get_va(block->arena->bo) + block->offset\<close>),
  and two blocks whose address ranges share no address.
\<close>

definition block_start :: "shader_arena \<Rightarrow> arena_block \<Rightarrow> nat" where
  "block_start a b = bo_va (bo a) + offset b"

definition blocks_disjoint ::
  "shader_arena \<Rightarrow> arena_block \<Rightarrow> shader_arena \<Rightarrow> arena_block \<Rightarrow> bool" where
  "blocks_disjoint a b a' b' \<longleftrightarrow>
     block_start a b + size_b b \<le> block_start a' b' \<or>
     block_start a' b' + size_b b' \<le> block_start a b"

text \<open>The address range of a block holds the address \<open>pc\<close>.\<close>

definition block_contains :: "shader_arena \<Rightarrow> arena_block \<Rightarrow> nat \<Rightarrow> bool" where
  "block_contains a b pc \<longleftrightarrow> block_start a b \<le> pc \<and> pc < block_start a b + size_b b"

text \<open>
  The code range \<open>[va, va + align(code_size, ALIGNMENT))\<close> of the shader at the address
  \<open>s\<close> holds \<open>pc\<close>.
\<close>

definition shader_covers :: "alloc_consts \<Rightarrow> memory \<Rightarrow> nat \<Rightarrow> nat \<Rightarrow> bool" where
  "shader_covers c m s pc \<longleftrightarrow>
     (case shader_at m s of
        None \<Rightarrow> False
      | Some x \<Rightarrow>
          shader_va x \<le> pc \<and>
          pc < u64 (shader_va x + align_u32 (shader_code_size x) (ALLOC_ALIGNMENT c)))"

subsection \<open>The states a device goes through\<close>

text \<open>
  What is assumed of the environment at a call of \<^verbatim>\<open>radv_alloc_shader_memory\<close>:
  \<^verbatim>\<open>malloc\<close> and \<^verbatim>\<open>calloc\<close> return memory that is not in use, and the buffer created
  shares no address with a live buffer.
\<close>

definition env_ok :: "alloc_consts \<Rightarrow> device \<Rightarrow> nat \<Rightarrow> alloc_env \<Rightarrow> bool" where
  "env_ok c dev sz0 e \<longleftrightarrow>
     (\<forall>p. env_malloc1 e = Some p \<longrightarrow>
        p \<notin> set (map blk (all_blocks (shader_arenas dev))) \<and> p \<notin> set (shader_block_obj_pool dev)) \<and>
     (\<forall>q. env_malloc2 e = Some q \<longrightarrow>
        q \<notin> set (map blk (all_blocks (shader_arenas dev))) \<and> q \<notin> set (shader_block_obj_pool dev) \<and>
        env_malloc1 e \<noteq> Some q) \<and>
     (\<forall>a. env_calloc e = Some a \<longrightarrow> a \<notin> set (map arena_ptr (shader_arenas dev))) \<and>
     (\<forall>h va. env_buffer_create e = Some (h, va) \<longrightarrow>
        (\<forall>b\<in>set (ws dev).
           bo_disjoint b \<lparr>bo_handle = h, bo_va = va,
             bo_size = arena_size_of c dev (align_u32 sz0 (ALLOC_ALIGNMENT c))\<rparr>))"

text \<open>
  The devices reached from an initialised one by calls of \<^verbatim>\<open>radv_alloc_shader_memory\<close>
  (successful or not) and \<^verbatim>\<open>radv_free_shader_memory\<close> of allocations.
\<close>

inductive reachable :: "alloc_consts \<Rightarrow> device \<Rightarrow> bool" for c :: alloc_consts where
  reach_init: "reachable c (radv_init_shader_arenas c dev0)"
| reach_alloc: "reachable c dev \<Longrightarrow> env_ok c dev sz0 e \<Longrightarrow>
     radv_alloc_shader_memory c e dev sz0 ptr = Some (r, dev') \<Longrightarrow> reachable c dev'"
| reach_free: "reachable c dev \<Longrightarrow>
     radv_free_shader_memory c dev p = Some dev' \<Longrightarrow> reachable c dev'"

text \<open>
  Calls of \<^verbatim>\<open>radv_free_shader_memory\<close> one after another, for the pointers of a list in
  order. \<open>None\<close> when one of the calls is undefined.
\<close>

fun free_calls :: "alloc_consts \<Rightarrow> device \<Rightarrow> nat list \<Rightarrow> device option" where
  "free_calls c dev [] = Some dev"
| "free_calls c dev (p # ps) =
     (case radv_free_shader_memory c dev p of
        None \<Rightarrow> None
      | Some dev' \<Rightarrow> free_calls c dev' ps)"

text \<open>The addresses of the allocations among the blocks of an arena.\<close>

definition allocations :: "shader_arena \<Rightarrow> nat set" where
  "allocations a = set (map blk (filter (\<lambda>b. freelist b \<noteq> Linked) (entries a)))"

subsection \<open>An example run\<close>

text \<open>
  The constants as the driver's header defines them upstream, and a run of the allocator on
  them: the empty device, a first allocation of 100 bytes that creates an arena of 256 KiB,
  and what follows from there.
\<close>

definition radv_consts :: alloc_consts where
  "radv_consts = \<lparr>ALLOC_ALIGNMENT = 256, ALLOC_MIN_ARENA_SIZE = 262144,
     ALLOC_MAX_ARENA_SIZE_SHIFT = 5, ALLOC_MIN_SIZE_CLASS = 8, ALLOC_NUM_FREE_LISTS = 8\<rparr>"

definition empty_dev :: device where
  "empty_dev = \<lparr>ws = [], shader_arenas = [], shader_arena_shift = 0,
     shader_free_list_mask = 0, shader_free_lists = [[], [], [], [], [], [], [], []],
     shader_block_obj_pool = []\<rparr>"

definition ex_env1 :: alloc_env where
  "ex_env1 = \<lparr>env_calloc = Some 1000, env_buffer_create = Some (50, 4096), env_buffer_map = True,
     env_malloc1 = Some 1, env_malloc2 = Some 2\<rparr>"

definition ex_bo1 :: radeon_winsys_bo where
  "ex_bo1 = \<lparr>bo_handle = 50, bo_va = 4096, bo_size = 262144\<rparr>"

text \<open>After \<^verbatim>\<open>radv_alloc_shader_memory(device, 100, 7)\<close> on the empty device.\<close>

definition ex_dev1 :: device where
  "ex_dev1 = \<lparr>ws = [ex_bo1],
     shader_arenas = [\<lparr>arena_ptr = 1000, bo = ex_bo1,
        entries = [\<lparr>blk = 1, offset = 0, size_b = 256, freelist = Unlinked 7\<rparr>,
                   \<lparr>blk = 2, offset = 256, size_b = 261888, freelist = Linked\<rparr>]\<rparr>],
     shader_arena_shift = 1, shader_free_list_mask = 128,
     shader_free_lists = [[], [], [], [], [], [], [], [2]],
     shader_block_obj_pool = []\<rparr>"

text \<open>After \<^verbatim>\<open>radv_free_shader_memory(device, 1)\<close> then: the arena is gone.\<close>

definition ex_dev1_freed :: device where
  "ex_dev1_freed = \<lparr>ws = [], shader_arenas = [], shader_arena_shift = 1,
     shader_free_list_mask = 0, shader_free_lists = [[], [], [], [], [], [], [], []],
     shader_block_obj_pool = [2, 1]\<rparr>"

text \<open>
  Or, after \<^verbatim>\<open>radv_alloc_shader_memory(device, 512, 8)\<close> on \<open>ex_dev1\<close>, where
  \<^verbatim>\<open>malloc\<close> returns the address 3: the hole is split.
\<close>

definition ex_env2 :: alloc_env where
  "ex_env2 = \<lparr>env_calloc = Some 2000, env_buffer_create = Some (51, 1048576),
     env_buffer_map = True, env_malloc1 = Some 3, env_malloc2 = None\<rparr>"

definition ex_dev2 :: device where
  "ex_dev2 = \<lparr>ws = [ex_bo1],
     shader_arenas = [\<lparr>arena_ptr = 1000, bo = ex_bo1,
        entries = [\<lparr>blk = 1, offset = 0, size_b = 256, freelist = Unlinked 7\<rparr>,
                   \<lparr>blk = 3, offset = 256, size_b = 512, freelist = Unlinked 8\<rparr>,
                   \<lparr>blk = 2, offset = 768, size_b = 261376, freelist = Linked\<rparr>]\<rparr>],
     shader_arena_shift = 1, shader_free_list_mask = 128,
     shader_free_lists = [[], [], [], [], [], [], [], [2]],
     shader_block_obj_pool = []\<rparr>"

text \<open>After \<^verbatim>\<open>radv_free_shader_memory(device, 1)\<close> on \<open>ex_dev2\<close>.\<close>

definition ex_dev3 :: device where
  "ex_dev3 = \<lparr>ws = [ex_bo1],
     shader_arenas = [\<lparr>arena_ptr = 1000, bo = ex_bo1,
        entries = [\<lparr>blk = 1, offset = 0, size_b = 256, freelist = Linked\<rparr>,
                   \<lparr>blk = 3, offset = 256, size_b = 512, freelist = Unlinked 8\<rparr>,
                   \<lparr>blk = 2, offset = 768, size_b = 261376, freelist = Linked\<rparr>]\<rparr>],
     shader_arena_shift = 1, shader_free_list_mask = 129,
     shader_free_lists = [[1], [], [], [], [], [], [], [2]],
     shader_block_obj_pool = []\<rparr>"

text \<open>After \<^verbatim>\<open>radv_free_shader_memory(device, 3)\<close> on \<open>ex_dev2\<close> instead.\<close>

definition ex_dev4 :: device where
  "ex_dev4 = \<lparr>ws = [ex_bo1],
     shader_arenas = [\<lparr>arena_ptr = 1000, bo = ex_bo1,
        entries = [\<lparr>blk = 1, offset = 0, size_b = 256, freelist = Unlinked 7\<rparr>,
                   \<lparr>blk = 2, offset = 256, size_b = 261888, freelist = Linked\<rparr>]\<rparr>],
     shader_arena_shift = 1, shader_free_list_mask = 128,
     shader_free_lists = [[], [], [], [], [], [], [], [2]],
     shader_block_obj_pool = [3]\<rparr>"

text \<open>
  A request of 300000 bytes on \<open>ex_dev1\<close>, larger than the only hole: a second arena, of
  512 KiB.
\<close>

definition ex_env3 :: alloc_env where
  "ex_env3 = \<lparr>env_calloc = Some 2000, env_buffer_create = Some (51, 1048576),
     env_buffer_map = True, env_malloc1 = Some 3, env_malloc2 = Some 4\<rparr>"

definition ex_bo2 :: radeon_winsys_bo where
  "ex_bo2 = \<lparr>bo_handle = 51, bo_va = 1048576, bo_size = 524288\<rparr>"

definition ex_dev5 :: device where
  "ex_dev5 = \<lparr>ws = [ex_bo1, ex_bo2],
     shader_arenas = [\<lparr>arena_ptr = 1000, bo = ex_bo1,
        entries = [\<lparr>blk = 1, offset = 0, size_b = 256, freelist = Unlinked 7\<rparr>,
                   \<lparr>blk = 2, offset = 256, size_b = 261888, freelist = Linked\<rparr>]\<rparr>,
        \<lparr>arena_ptr = 2000, bo = ex_bo2,
        entries = [\<lparr>blk = 3, offset = 0, size_b = 300032, freelist = Unlinked 9\<rparr>,
                   \<lparr>blk = 4, offset = 300032, size_b = 224256, freelist = Linked\<rparr>]\<rparr>],
     shader_arena_shift = 2, shader_free_list_mask = 128,
     shader_free_lists = [[], [], [], [], [], [], [], [2, 4]],
     shader_block_obj_pool = []\<rparr>"

text \<open>
  The same request on \<open>ex_dev4\<close>, whose pool holds one block object, when \<^verbatim>\<open>malloc\<close>
  fails.
\<close>

definition ex_env4 :: alloc_env where
  "ex_env4 = \<lparr>env_calloc = Some 2000, env_buffer_create = Some (51, 1048576),
     env_buffer_map = True, env_malloc1 = None, env_malloc2 = None\<rparr>"

text \<open>
  A request of \<open>2 ^ 32 - 1\<close> bytes on the empty device: the size rounded up does not fit
  the \<^verbatim>\<open>uint32_t size\<close> and becomes 0.
\<close>

definition ex_dev6 :: device where
  "ex_dev6 = \<lparr>ws = [ex_bo1],
     shader_arenas = [\<lparr>arena_ptr = 1000, bo = ex_bo1,
        entries = [\<lparr>blk = 1, offset = 0, size_b = 0, freelist = Unlinked 7\<rparr>,
                   \<lparr>blk = 2, offset = 0, size_b = 262144, freelist = Linked\<rparr>]\<rparr>],
     shader_arena_shift = 1, shader_free_list_mask = 128,
     shader_free_lists = [[], [], [], [], [], [], [], [2]],
     shader_block_obj_pool = []\<rparr>"

text \<open>
  A memory for \<open>ex_dev2\<close>: the pipeline at address 7 has the shaders at the addresses 70
  and 71, whose code is in the first allocation; the pipeline at address 8 has the shader at
  address 80, whose code is at the start of the second allocation and shorter than it.
\<close>

definition ex_mem :: memory where
  "ex_mem = \<lparr>pipeline_at = [7 \<mapsto> [0, 70, 71], 8 \<mapsto> [80, 0]],
     shader_at = [70 \<mapsto> \<lparr>shader_va = 4096, shader_code_size = 100\<rparr>,
                  71 \<mapsto> \<lparr>shader_va = 4096, shader_code_size = 50\<rparr>,
                  80 \<mapsto> \<lparr>shader_va = 4352, shader_code_size = 200\<rparr>]\<rparr>"

text \<open>
  After \<^verbatim>\<open>radv_free_shader_memory(device, 3)\<close> on \<open>ex_dev3\<close>: the block is merged with the
  holes on both sides and the arena is gone.
\<close>

definition ex_dev7 :: device where
  "ex_dev7 = \<lparr>ws = [], shader_arenas = [], shader_arena_shift = 1,
     shader_free_list_mask = 0, shader_free_lists = [[], [], [], [], [], [], [], []],
     shader_block_obj_pool = [2, 1, 3]\<rparr>"

text \<open>
  A request of 512 bytes on \<open>ex_dev5\<close>, where \<^verbatim>\<open>malloc\<close> returns the address 5: the hole
  at address 2, first of its free list, is split and filed again behind the hole at address 4;
  and the release of the allocation after that.
\<close>

definition ex_env5 :: alloc_env where
  "ex_env5 = \<lparr>env_calloc = Some 3000, env_buffer_create = Some (52, 2097152),
     env_buffer_map = True, env_malloc1 = Some 5, env_malloc2 = Some 6\<rparr>"

definition ex_dev8 :: device where
  "ex_dev8 = \<lparr>ws = [ex_bo1, ex_bo2],
     shader_arenas = [\<lparr>arena_ptr = 1000, bo = ex_bo1,
        entries = [\<lparr>blk = 1, offset = 0, size_b = 256, freelist = Unlinked 7\<rparr>,
                   \<lparr>blk = 5, offset = 256, size_b = 512, freelist = Unlinked 8\<rparr>,
                   \<lparr>blk = 2, offset = 768, size_b = 261376, freelist = Linked\<rparr>]\<rparr>,
        \<lparr>arena_ptr = 2000, bo = ex_bo2,
        entries = [\<lparr>blk = 3, offset = 0, size_b = 300032, freelist = Unlinked 9\<rparr>,
                   \<lparr>blk = 4, offset = 300032, size_b = 224256, freelist = Linked\<rparr>]\<rparr>],
     shader_arena_shift = 2, shader_free_list_mask = 128,
     shader_free_lists = [[], [], [], [], [], [], [], [4, 2]],
     shader_block_obj_pool = []\<rparr>"

definition ex_dev9 :: device where
  "ex_dev9 = \<lparr>ws = [ex_bo1, ex_bo2],
     shader_arenas = [\<lparr>arena_ptr = 1000, bo = ex_bo1,
        entries = [\<lparr>blk = 1, offset = 0, size_b = 256, freelist = Unlinked 7\<rparr>,
                   \<lparr>blk = 2, offset = 256, size_b = 261888, freelist = Linked\<rparr>]\<rparr>,
        \<lparr>arena_ptr = 2000, bo = ex_bo2,
        entries = [\<lparr>blk = 3, offset = 0, size_b = 300032, freelist = Unlinked 9\<rparr>,
                   \<lparr>blk = 4, offset = 300032, size_b = 224256, freelist = Linked\<rparr>]\<rparr>],
     shader_arena_shift = 2, shader_free_list_mask = 128,
     shader_free_lists = [[], [], [], [], [], [], [], [4, 2]],
     shader_block_obj_pool = [5]\<rparr>"

section \<open>Lemmas\<close>

subsection \<open>Lists\<close>

lemma split_first_SomeD:
  "split_first P xs = Some (l, y, r) \<Longrightarrow> xs = l @ y # r \<and> P y \<and> (\<forall>x\<in>set l. \<not> P x)"
  by (induction xs arbitrary: l) (auto split: if_splits option.splits)

lemma split_first_None: "split_first P xs = None \<longleftrightarrow> (\<forall>x\<in>set xs. \<not> P x)"
  by (induction xs) (auto split: option.splits)

lemma split_first_append:
  "\<forall>x\<in>set l. \<not> P x \<Longrightarrow> P y \<Longrightarrow> split_first P (l @ y # r) = Some (l, y, r)"
  by (induction l) auto

lemma all_blocks_simps [simp]:
  "all_blocks [] = []"
  "all_blocks (a # as) = entries a @ all_blocks as"
  "all_blocks (as @ bs) = all_blocks as @ all_blocks bs"
  by (simp_all add: all_blocks_def)

lemma locate_SomeD:
  assumes "locate as p = Some (apre, a, apost, pre, b, post)"
  shows "as = apre @ a # apost" and "entries a = pre @ b # post" and "blk b = p"
    and "p \<notin> blk ` set (all_blocks apre)" and "p \<notin> blk ` set pre"
  using assms unfolding locate_def
  by (auto simp: block_ptrs_def all_blocks_def split: option.splits dest!: split_first_SomeD)

lemma locate_complete:
  assumes "p \<in> blk ` set (all_blocks as)"
  shows "\<exists>apre a apost pre b post. locate as p = Some (apre, a, apost, pre, b, post)"
proof -
  from assms obtain a where a: "a \<in> set as" "p \<in> set (block_ptrs a)"
    by (auto simp: all_blocks_def block_ptrs_def)
  then obtain apre a' apost where
    s1: "split_first (\<lambda>a. p \<in> set (block_ptrs a)) as = Some (apre, a', apost)"
    using split_first_None[of "\<lambda>a. p \<in> set (block_ptrs a)" as] by (cases "split_first (\<lambda>a. p \<in> set (block_ptrs a)) as") auto
  from split_first_SomeD[OF s1] have "p \<in> set (block_ptrs a')" by simp
  then obtain pre b post where
    s2: "split_first (\<lambda>b. blk b = p) (entries a') = Some (pre, b, post)"
    using split_first_None[of "\<lambda>b. blk b = p" "entries a'"]
    by (cases "split_first (\<lambda>b. blk b = p) (entries a')") (auto simp: block_ptrs_def)
  show ?thesis by (simp add: locate_def s1 s2)
qed

lemma locate_unique:
  assumes "distinct (map blk (all_blocks (apre @ a # apost)))" "entries a = pre @ b # post"
  shows "locate (apre @ a # apost) (blk b) = Some (apre, a, apost, pre, b, post)"
proof -
  have d: "distinct (map blk (all_blocks apre) @ map blk pre @ blk b # map blk post @ map blk (all_blocks apost))"
    using assms by simp
  have 1: "\<forall>x\<in>set apre. blk b \<notin> set (block_ptrs x)"
    using d by (auto simp: all_blocks_def block_ptrs_def)
  have 2: "blk b \<in> set (block_ptrs a)" using assms(2) by (simp add: block_ptrs_def)
  have 3: "\<forall>x\<in>set pre. blk x \<noteq> blk b" using d by (auto simp: image_iff)
  show ?thesis
    unfolding locate_def
    by (simp add: split_first_append[where P="\<lambda>a. blk b \<in> set (block_ptrs a)", OF 1 2]
        assms(2) split_first_append[where P="\<lambda>x. blk x = blk b", OF 3])
qed

subsection \<open>Device fields\<close>

lemma get_size_class_less: "0 < ALLOC_NUM_FREE_LISTS c \<Longrightarrow> get_size_class c s r < ALLOC_NUM_FREE_LISTS c"
  by (simp add: get_size_class_def Let_def min_def) arith

lemma remove_hole_fields [simp]:
  "shader_arenas (remove_hole c dev h) = shader_arenas dev"
  "shader_arena_shift (remove_hole c dev h) = shader_arena_shift dev"
  "shader_block_obj_pool (remove_hole c dev h) = shader_block_obj_pool dev"
  "ws (remove_hole c dev h) = ws dev"
  "shader_free_lists (remove_hole c dev h) = map (removeAll (blk h)) (shader_free_lists dev)"
  by (simp_all add: remove_hole_def Let_def)

lemma remove_hole_mask:
  "shader_free_list_mask (remove_hole c dev h) =
   (if map (removeAll (blk h)) (shader_free_lists dev) ! get_size_class c (size_b h) False = []
    then shader_free_list_mask dev AND NOT (push_bit (get_size_class c (size_b h) False) 1)
    else shader_free_list_mask dev)"
  by (simp add: remove_hole_def Let_def)

lemma add_hole_fields [simp]:
  "shader_arenas (add_hole c dev h) = shader_arenas dev"
  "shader_arena_shift (add_hole c dev h) = shader_arena_shift dev"
  "shader_block_obj_pool (add_hole c dev h) = shader_block_obj_pool dev"
  "ws (add_hole c dev h) = ws dev"
  "shader_free_lists (add_hole c dev h) =
     (shader_free_lists dev)[get_size_class c (size_b h) False :=
        shader_free_lists dev ! get_size_class c (size_b h) False @ [blk h]]"
  "shader_free_list_mask (add_hole c dev h) =
     shader_free_list_mask dev OR push_bit (get_size_class c (size_b h) False) 1"
  by (simp_all add: add_hole_def Let_def)

lemma alloc_block_obj_eq:
  "alloc_block_obj dev m =
     ((case shader_block_obj_pool dev of [] \<Rightarrow> m | b # _ \<Rightarrow> Some b),
      dev\<lparr>shader_block_obj_pool := tl (shader_block_obj_pool dev)\<rparr>)"
  by (simp add: alloc_block_obj_def split: list.splits)

lemma free_block_obj_fields [simp]:
  "shader_arenas (free_block_obj dev b) = shader_arenas dev"
  "shader_arena_shift (free_block_obj dev b) = shader_arena_shift dev"
  "shader_free_lists (free_block_obj dev b) = shader_free_lists dev"
  "shader_free_list_mask (free_block_obj dev b) = shader_free_list_mask dev"
  "ws (free_block_obj dev b) = ws dev"
  "shader_block_obj_pool (free_block_obj dev b) = b # shader_block_obj_pool dev"
  by (simp_all add: free_block_obj_def)

lemma buffer_destroy_fields [simp]:
  "shader_arenas (buffer_destroy dev b) = shader_arenas dev"
  "shader_arena_shift (buffer_destroy dev b) = shader_arena_shift dev"
  "shader_free_lists (buffer_destroy dev b) = shader_free_lists dev"
  "shader_free_list_mask (buffer_destroy dev b) = shader_free_list_mask dev"
  "shader_block_obj_pool (buffer_destroy dev b) = shader_block_obj_pool dev"
  "ws (buffer_destroy dev b) = removeAll b (ws dev)"
  by (simp_all add: buffer_destroy_def)

subsection \<open>Free lists and mask\<close>

lemma lists_ok_cong:
  "(\<And>k. k < n \<Longrightarrow> H k = H' k) \<Longrightarrow> lists_ok n H fl \<Longrightarrow> lists_ok n H' fl"
  by (simp add: lists_ok_def)

lemma lists_ok_remove:
  "lists_ok n H fl \<Longrightarrow> lists_ok n (\<lambda>k. H k - {p}) (map (removeAll p) fl)"
  by (simp add: lists_ok_def distinct_removeAll)

lemma lists_ok_add:
  assumes "lists_ok n H fl" "cls < n" "p \<notin> H cls"
  shows "lists_ok n (\<lambda>k. if k = cls then insert p (H k) else H k) (fl[cls := fl ! cls @ [p]])"
proof -
  have len: "length fl = n" and ok: "\<And>k. k < n \<Longrightarrow> distinct (fl ! k) \<and> set (fl ! k) = H k"
    using assms(1) by (simp_all add: lists_ok_def)
  have "distinct (fl[cls := fl ! cls @ [p]] ! k) \<and>
        set (fl[cls := fl ! cls @ [p]] ! k) = (if k = cls then insert p (H k) else H k)"
    if "k < n" for k
  proof (cases "k = cls")
    case True
    then show ?thesis using ok[OF that] assms(3) len that by simp
  next
    case False
    then show ?thesis using ok[OF that] by simp
  qed
  then show ?thesis using len by (simp add: lists_ok_def)
qed

lemma nbit32: "\<not> k < 32 \<Longrightarrow> \<not> bit (w::32 word) k"
  using bit_imp_le_length[of w k] by auto

lemma bit_clear32: "cls < 32 \<Longrightarrow> bit ((m::32 word) AND NOT (push_bit cls 1)) k \<longleftrightarrow> bit m k \<and> k \<noteq> cls"
proof (cases "k < 32")
  case True
  assume "cls < 32"
  with True show ?thesis
    by (simp add: bit_and_iff bit_not_iff push_bit_of_1 bit_exp_iff)
next
  case False
  then show ?thesis using nbit32 by blast
qed

lemma bit_set32: "cls < 32 \<Longrightarrow> bit ((m::32 word) OR push_bit cls 1) k \<longleftrightarrow> bit m k \<or> k = cls"
  by (auto simp add: bit_or_iff push_bit_of_1 bit_exp_iff)

lemma bit_clear32': "cls < 32 \<Longrightarrow> bit ((m::32 word) AND NOT (2 ^ cls)) k \<longleftrightarrow> bit m k \<and> k \<noteq> cls"
  using bit_clear32[of cls m k] by (simp add: push_bit_of_1)

lemma bit_set32': "cls < 32 \<Longrightarrow> bit ((m::32 word) OR 2 ^ cls) k \<longleftrightarrow> bit m k \<or> k = cls"
  using bit_set32[of cls m k] by (simp add: push_bit_of_1)

lemma mask_ok_remove:
  assumes "mask_ok n fl m" "length fl = n" "cls < n" "n \<le> 32"
    and "\<And>k. k < n \<Longrightarrow> k \<noteq> cls \<Longrightarrow> p \<notin> set (fl ! k)"
  shows "mask_ok n (map (removeAll p) fl)
           (if map (removeAll p) fl ! cls = [] then m AND NOT (push_bit cls 1) else m)"
proof -
  have c32: "cls < 32" using assms by simp
  have m: "\<And>k. bit m k \<longleftrightarrow> k < n \<and> fl ! k \<noteq> []"
    using assms(1) by (simp add: mask_ok_def)
  have other: "removeAll p (fl ! k) = fl ! k" if "k < n" "k \<noteq> cls" for k
    using assms(5)[OF that] by simp
  have "bit (if map (removeAll p) fl ! cls = [] then m AND NOT (push_bit cls 1) else m) k
          \<longleftrightarrow> k < n \<and> map (removeAll p) fl ! k \<noteq> []" for k
  proof (cases "k < n")
    case False
    then show ?thesis by (simp add: m bit_clear32[OF c32] bit_clear32'[OF c32])
  next
    case kn: True
    show ?thesis
    proof (cases "k = cls")
      case True
      have "fl ! cls \<noteq> []" if "removeAll p (fl ! cls) \<noteq> []"
        using that by (cases "fl ! cls") simp_all
      then show ?thesis using True assms(2,3)
        by (simp add: m bit_clear32[OF c32] bit_clear32'[OF c32])
    next
      case False
      then show ?thesis using kn other[OF kn False] assms(2)
        by (simp add: m bit_clear32[OF c32] bit_clear32'[OF c32])
    qed
  qed
  then show ?thesis unfolding mask_ok_def by blast
qed

lemma mask_ok_add:
  assumes "mask_ok n fl m" "length fl = n" "cls < n" "n \<le> 32"
  shows "mask_ok n (fl[cls := fl ! cls @ [p]]) (m OR push_bit cls 1)"
proof -
  have c32: "cls < 32" using assms by simp
  have m: "\<And>k. bit m k \<longleftrightarrow> k < n \<and> fl ! k \<noteq> []"
    using assms(1) by (simp add: mask_ok_def)
  have "bit (m OR push_bit cls 1) k \<longleftrightarrow> k < n \<and> fl[cls := fl ! cls @ [p]] ! k \<noteq> []" for k
  proof (cases "k = cls")
    case True
    then show ?thesis using assms(2,3) by (simp add: bit_set32[OF c32] bit_set32'[OF c32])
  next
    case False
    then show ?thesis by (simp add: bit_set32[OF c32] bit_set32'[OF c32] m)
  qed
  then show ?thesis unfolding mask_ok_def by blast
qed

subsection \<open>Blocks of an arena\<close>

lemma offsets_ok_append [simp]:
  "offsets_ok s (xs @ ys) \<longleftrightarrow> offsets_ok s xs \<and> offsets_ok (s + sum_list (map size_b xs)) ys"
  by (induction xs arbitrary: s) (auto simp: add.assoc)

lemma nah_Cons:
  "no_adjacent_holes (x # ys) \<longleftrightarrow>
     no_adjacent_holes ys \<and> (ys \<noteq> [] \<longrightarrow> \<not> (freelist x = Linked \<and> freelist (hd ys) = Linked))"
  by (cases ys) auto

lemma nah_append:
  "no_adjacent_holes (xs @ ys) \<longleftrightarrow>
     no_adjacent_holes xs \<and> no_adjacent_holes ys \<and>
     (xs \<noteq> [] \<and> ys \<noteq> [] \<longrightarrow> \<not> (freelist (last xs) = Linked \<and> freelist (hd ys) = Linked))"
proof (induction xs rule: no_adjacent_holes.induct)
  case 1
  then show ?case by simp
next
  case (2 b)
  then show ?case by (cases ys) auto
next
  case (3 b b' bs)
  then show ?case by auto
qed

lemma hole_ptrs_simps [simp]:
  "hole_ptrs c [] k = {}"
  "hole_ptrs c (b # bs) k =
     (if freelist b = Linked \<and> get_size_class c (size_b b) False = k then {blk b} else {}) \<union> hole_ptrs c bs k"
  "hole_ptrs c (xs @ ys) k = hole_ptrs c xs k \<union> hole_ptrs c ys k"
  by (auto simp: hole_ptrs_def)

lemma hole_ptrs_subset: "hole_ptrs c bs k \<subseteq> blk ` set bs"
  by (auto simp: hole_ptrs_def)

lemma hole_ptrs_notin: "p \<notin> blk ` set bs \<Longrightarrow> p \<notin> hole_ptrs c bs k"
  using hole_ptrs_subset by blast

subsection \<open>32-bit arithmetic without wrap-around\<close>

lemma u32_id: "x < 2 ^ 32 \<Longrightarrow> u32 x = x"
  by (simp add: u32_def)

lemma u32_less: "u32 x < 2 ^ 32"
  by (simp add: u32_def)

lemma sub_mod_id:
  fixes a b M :: nat
  assumes "b \<le> a" "a < M"
  shows "(a + M - b mod M) mod M = a - b"
proof -
  have 1: "b mod M = b" using assms by simp
  have 2: "a + M - b = (a - b) + M" using assms by arith
  have 3: "a - b < M" using assms by arith
  show ?thesis unfolding 1 2 using 3 by simp
qed

lemma sub_u32_id: "b \<le> a \<Longrightarrow> a < 2 ^ 32 \<Longrightarrow> sub_u32 a b = a - b"
  unfolding sub_u32_def by (rule sub_mod_id)

lemma align_u32_less: "align_u32 v a < 2 ^ 32"
  unfolding align_u32_def by (rule u32_less)

lemma align_u32_dvd: "a dvd 2 ^ 32 \<Longrightarrow> a dvd align_u32 v a"
  unfolding align_u32_def u32_def
  by (rule dvd_mod) simp_all

lemma arena_size_of_less: "sz < 2 ^ 32 \<Longrightarrow> arena_size_of c dev sz < 2 ^ 32"
  unfolding arena_size_of_def using u32_less by (simp add: max_def)

lemma arena_size_of_ge: "sz \<le> arena_size_of c dev sz"
  by (simp add: arena_size_of_def)

lemma arena_size_of_dvd:
  assumes "consts_ok c" "ALLOC_ALIGNMENT c dvd sz"
  shows "ALLOC_ALIGNMENT c dvd arena_size_of c dev sz"
proof -
  have "ALLOC_ALIGNMENT c dvd
          ALLOC_MIN_ARENA_SIZE c * 2 ^ min (ALLOC_MAX_ARENA_SIZE_SHIFT c) (shader_arena_shift dev)"
    using assms(1) by (simp add: consts_ok_def)
  moreover have "ALLOC_ALIGNMENT c dvd 2 ^ 32" using assms(1) by (simp add: consts_ok_def)
  ultimately have "ALLOC_ALIGNMENT c dvd
          u32 (ALLOC_MIN_ARENA_SIZE c * 2 ^ min (ALLOC_MAX_ARENA_SIZE_SHIFT c) (shader_arena_shift dev))"
    unfolding u32_def by (rule dvd_mod)
  then show ?thesis using assms(2) by (simp add: arena_size_of_def max_def)
qed

subsection \<open>Replacing blocks\<close>

lemma arena_tiles_D:
  assumes "arena_tiles a" "entries a = pre @ b # post"
  shows "offsets_ok 0 pre" "offset b = sum_list (map size_b pre)"
    "offsets_ok (sum_list (map size_b pre) + size_b b) post"
    "sum_list (map size_b pre) + size_b b + sum_list (map size_b post) = bo_size (bo a)"
    "bo_size (bo a) < 2 ^ 32" "0 < bo_size (bo a)"
  using assms by (simp_all add: arena_tiles_def)

lemma arena_tiles_I:
  assumes "offsets_ok 0 pre" "offsets_ok (sum_list (map size_b pre)) mid"
    "offsets_ok (sum_list (map size_b pre) + sum_list (map size_b mid)) post"
    "sum_list (map size_b pre) + sum_list (map size_b mid) + sum_list (map size_b post) = bo_size (bo a)"
    "bo_size (bo a) < 2 ^ 32" "0 < bo_size (bo a)"
  shows "arena_tiles (a\<lparr>entries := pre @ mid @ post\<rparr>)"
  using assms by (simp add: arena_tiles_def)

lemma arena_tiles_exact:
  assumes "arena_tiles a" "entries a = pre @ hole # post"
  shows "arena_tiles (a\<lparr>entries := pre @ hole\<lparr>freelist := Unlinked ptr\<rparr> # post\<rparr>)"
  using assms by (simp add: arena_tiles_def)

lemma arena_coalesced_exact:
  assumes "arena_coalesced a" "entries a = pre @ hole # post"
  shows "arena_coalesced (a\<lparr>entries := pre @ hole\<lparr>freelist := Unlinked ptr\<rparr> # post\<rparr>)"
  using assms by (simp add: arena_coalesced_def nah_append nah_Cons)

lemma arena_aligned_exact:
  assumes "arena_aligned c a" "entries a = pre @ hole # post"
  shows "arena_aligned c (a\<lparr>entries := pre @ hole\<lparr>freelist := Unlinked ptr\<rparr> # post\<rparr>)"
  using assms by (simp add: arena_aligned_def)

lemma arena_inv_exact:
  assumes "arena_inv c a" "entries a = pre @ hole # post"
  shows "arena_inv c (a\<lparr>entries := pre @ hole\<lparr>freelist := Unlinked ptr\<rparr> # post\<rparr>)"
  using assms arena_tiles_exact arena_coalesced_exact arena_aligned_exact
  unfolding arena_inv_def by blast

lemma split_arith:
  assumes "arena_tiles a" "entries a = pre @ hole # post" "sz \<le> size_b hole"
  shows "u32 (offset hole + sz) = offset hole + sz" "sub_u32 (size_b hole) sz = size_b hole - sz"
proof -
  note t = arena_tiles_D[OF assms(1,2)]
  have "offset hole + sz \<le> bo_size (bo a)" using t(2,4) assms(3) by arith
  then have "offset hole + sz < 2 ^ 32" using t(5) by (rule le_less_trans)
  then show "u32 (offset hole + sz) = offset hole + sz" by (rule u32_id)
  have "size_b hole \<le> bo_size (bo a)" using t(4) by arith
  then have "size_b hole < 2 ^ 32" using t(5) by (rule le_less_trans)
  with assms(3) show "sub_u32 (size_b hole) sz = size_b hole - sz" by (rule sub_u32_id)
qed

lemma arena_tiles_split:
  assumes inv: "arena_tiles a" and es: "entries a = pre @ hole # post"
    and lt: "sz < size_b hole"
  shows "arena_tiles (a\<lparr>entries := pre @
            \<lparr>blk = p, offset = offset hole, size_b = sz, freelist = Unlinked ptr\<rparr> #
            hole\<lparr>offset := u32 (offset hole + sz), size_b := sub_u32 (size_b hole) sz\<rparr> # post\<rparr>)"
proof -
  note t = arena_tiles_D[OF inv es]
  have le: "sz \<le> size_b hole" using lt by simp
  have sum: "sz + (size_b hole - sz) = size_b hole" using lt by arith
  have sum': "sum_list (map size_b pre) + sz + (size_b hole - sz) = sum_list (map size_b pre) + size_b hole"
    using lt by arith
  show ?thesis
    unfolding split_arith[OF inv es le] arena_tiles_def
    using t by (simp add: sum sum' add.assoc[symmetric])
qed

lemma arena_coalesced_split:
  assumes "arena_coalesced a" "entries a = pre @ hole # post" "freelist hole = Linked"
  shows "arena_coalesced (a\<lparr>entries := pre @
            \<lparr>blk = p, offset = o1, size_b = sz, freelist = Unlinked ptr\<rparr> #
            hole\<lparr>offset := o2, size_b := s2\<rparr> # post\<rparr>)"
  using assms by (simp add: arena_coalesced_def nah_append nah_Cons)

lemma arena_aligned_split:
  assumes inv: "arena_aligned c a" and es: "entries a = pre @ hole # post"
    and lt: "sz < size_b hole" and al: "ALLOC_ALIGNMENT c dvd sz"
  shows "arena_aligned c (a\<lparr>entries := pre @
            \<lparr>blk = p, offset = offset hole, size_b = sz, freelist = Unlinked ptr\<rparr> #
            hole\<lparr>offset := offset hole + sz, size_b := size_b hole - sz\<rparr> # post\<rparr>)"
proof -
  have dv: "ALLOC_ALIGNMENT c dvd offset hole" "ALLOC_ALIGNMENT c dvd size_b hole"
    using inv es by (simp_all add: arena_aligned_def)
  have dv': "ALLOC_ALIGNMENT c dvd offset hole + sz" "ALLOC_ALIGNMENT c dvd size_b hole - sz"
    using dv al by (simp_all add: dvd_diff_nat)
  show ?thesis using inv es dv dv' al by (simp add: arena_aligned_def)
qed

lemma arena_inv_split:
  assumes inv: "arena_inv c a" and es: "entries a = pre @ hole # post"
    and lk: "freelist hole = Linked" and lt: "sz < size_b hole"
    and al: "ALLOC_ALIGNMENT c dvd sz"
  shows "arena_inv c (a\<lparr>entries := pre @
            \<lparr>blk = p, offset = offset hole, size_b = sz, freelist = Unlinked ptr\<rparr> #
            hole\<lparr>offset := u32 (offset hole + sz), size_b := sub_u32 (size_b hole) sz\<rparr> # post\<rparr>)"
proof -
  have t: "arena_tiles a" and co: "arena_coalesced a" and ag: "arena_aligned c a"
    using inv by (simp_all add: arena_inv_def)
  have le: "sz \<le> size_b hole" using lt by simp
  note ar = split_arith[OF t es le]
  show ?thesis
    unfolding arena_inv_def
    using arena_tiles_split[OF t es lt] arena_coalesced_split[OF co es lk]
      arena_aligned_split[OF ag es lt al]
    by (simp add: ar)
qed

lemma arena_inv_new2:
  assumes "ALLOC_ALIGNMENT c dvd sz" "ALLOC_ALIGNMENT c dvd asz" "sz < asz" "asz < 2 ^ 32"
  shows "arena_inv c \<lparr>arena_ptr = ar, bo = \<lparr>bo_handle = h, bo_va = va, bo_size = asz\<rparr>,
            entries = [\<lparr>blk = al, offset = 0, size_b = sz, freelist = Unlinked ptr\<rparr>,
                       \<lparr>blk = ho, offset = sz, size_b = asz - sz, freelist = Linked\<rparr>]\<rparr>"
  using assms unfolding arena_inv_def arena_tiles_def arena_coalesced_def arena_aligned_def
  by (simp add: dvd_diff_nat)

lemma arena_inv_new1:
  assumes "ALLOC_ALIGNMENT c dvd sz" "sz < 2 ^ 32" "0 < sz"
  shows "arena_inv c \<lparr>arena_ptr = ar, bo = \<lparr>bo_handle = h, bo_va = va, bo_size = sz\<rparr>,
            entries = [\<lparr>blk = al, offset = 0, size_b = sz, freelist = Unlinked ptr\<rparr>]\<rparr>"
  using assms unfolding arena_inv_def arena_tiles_def arena_coalesced_def arena_aligned_def
  by simp

lemma hole_ptrs_replace:
  assumes "blk ` set old \<inter> blk ` set X = {}" "blk ` set old \<inter> blk ` set Y = {}"
  shows "hole_ptrs c (X @ new @ Y) k = (hole_ptrs c (X @ old @ Y) k - blk ` set old) \<union> hole_ptrs c new k"
proof -
  have x: "hole_ptrs c X k - blk ` set old = hole_ptrs c X k"
    using assms(1) hole_ptrs_subset[of c X k] by blast
  have y: "hole_ptrs c Y k - blk ` set old = hole_ptrs c Y k"
    using assms(2) hole_ptrs_subset[of c Y k] by blast
  have o: "hole_ptrs c old k - blk ` set old = {}"
    using hole_ptrs_subset[of c old k] by blast
  have "hole_ptrs c (X @ old @ Y) k - blk ` set old =
        (hole_ptrs c X k - blk ` set old) \<union> ((hole_ptrs c old k - blk ` set old) \<union> (hole_ptrs c Y k - blk ` set old))"
    unfolding hole_ptrs_simps by (simp only: Un_Diff)
  also have "\<dots> = hole_ptrs c X k \<union> hole_ptrs c Y k"
    unfolding x y o by simp
  finally show ?thesis unfolding hole_ptrs_simps by (simp only: Un_ac)
qed

lemma hole_ptrs_mem:
  assumes "distinct (map blk bs)" "b \<in> set bs"
  shows "blk b \<in> hole_ptrs c bs k \<longleftrightarrow> freelist b = Linked \<and> get_size_class c (size_b b) False = k"
proof -
  have inj: "inj_on blk (set bs)" using assms(1) by (simp add: distinct_map)
  show ?thesis
  proof
    assume "blk b \<in> hole_ptrs c bs k"
    then obtain b' where b': "b' \<in> set bs" "blk b' = blk b" "freelist b' = Linked"
      "get_size_class c (size_b b') False = k"
      by (auto simp: hole_ptrs_def)
    from inj b'(1,2) assms(2) have "b' = b" by (auto dest: inj_onD)
    with b' show "freelist b = Linked \<and> get_size_class c (size_b b) False = k" by simp
  next
    assume "freelist b = Linked \<and> get_size_class c (size_b b) False = k"
    with assms(2) show "blk b \<in> hole_ptrs c bs k" by (auto simp: hole_ptrs_def)
  qed
qed

lemma find_fit_total:
  "\<forall>h\<in>set hs. h \<in> blk ` set (all_blocks as) \<Longrightarrow> find_fit as sz hs \<noteq> None"
proof (induction hs)
  case Nil
  then show ?case by simp
next
  case (Cons h hs)
  then have "h \<in> blk ` set (all_blocks as)" by simp
  from locate_complete[OF this] obtain apre a apost pre b post where
    "locate as h = Some (apre, a, apost, pre, b, post)" by blast
  with Cons show ?case by simp
qed

lemma find_fit_SomeD:
  "find_fit as sz hs = Some (Some h) \<Longrightarrow>
   \<exists>l1 l2 apre a apost pre hole post. hs = l1 @ h # l2 \<and>
      locate as h = Some (apre, a, apost, pre, hole, post) \<and> \<not> size_b hole < sz \<and>
      (\<forall>x\<in>set l1. \<exists>apre a apost pre hx post. 
          locate as x = Some (apre, a, apost, pre, hx, post) \<and> size_b hx < sz)"
proof (induction hs)
  case Nil
  then show ?case by simp
next
  case (Cons x hs)
  from Cons.prems obtain apre a apost pre hx post where
    lx: "locate as x = Some (apre, a, apost, pre, hx, post)"
    by (cases "locate as x") auto
  show ?case
  proof (cases "size_b hx < sz")
    case True
    with Cons.prems lx have "find_fit as sz hs = Some (Some h)" by simp
    from Cons.IH[OF this] obtain l1 l2 apre' a' apost' pre' hole post' where
      ih: "hs = l1 @ h # l2" "locate as h = Some (apre', a', apost', pre', hole, post')"
      "\<not> size_b hole < sz"
      "\<forall>x\<in>set l1. \<exists>apre a apost pre hx post. 
          locate as x = Some (apre, a, apost, pre, hx, post) \<and> size_b hx < sz"
      by blast
    have "x # hs = (x # l1) @ h # l2" using ih(1) by simp
    moreover have "\<forall>y\<in>set (x # l1). \<exists>apre a apost pre hx post. 
          locate as y = Some (apre, a, apost, pre, hx, post) \<and> size_b hx < sz"
      using ih(4) lx True by auto
    ultimately show ?thesis using ih(2,3) by blast
  next
    case False
    with Cons.prems lx have "h = x" by simp
    then have "x # hs = [] @ h # hs" by simp
    then show ?thesis using lx False \<open>h = x\<close> by fastforce
  qed
qed


lemma dev_invD:
  assumes "dev_inv c dev"
  shows "\<And>a. a \<in> set (shader_arenas dev) \<Longrightarrow> arena_inv c a"
    and "distinct (map blk (all_blocks (shader_arenas dev)) @ shader_block_obj_pool dev)"
    and "distinct (map arena_ptr (shader_arenas dev))"
    and "lists_ok (ALLOC_NUM_FREE_LISTS c) (hole_ptrs c (all_blocks (shader_arenas dev)))
           (shader_free_lists dev)"
    and "mask_ok (ALLOC_NUM_FREE_LISTS c) (shader_free_lists dev) (shader_free_list_mask dev)"
    and "\<And>a. a \<in> set (shader_arenas dev) \<Longrightarrow> bo a \<in> set (ws dev)"
    and "pairwise_disjoint (map bo (shader_arenas dev))"
  using assms by (simp_all add: dev_inv_def)

lemma dev_invI:
  assumes "\<And>a. a \<in> set (shader_arenas dev) \<Longrightarrow> arena_inv c a"
    and "distinct (map blk (all_blocks (shader_arenas dev)) @ shader_block_obj_pool dev)"
    and "distinct (map arena_ptr (shader_arenas dev))"
    and "lists_ok (ALLOC_NUM_FREE_LISTS c) (hole_ptrs c (all_blocks (shader_arenas dev)))
           (shader_free_lists dev)"
    and "mask_ok (ALLOC_NUM_FREE_LISTS c) (shader_free_lists dev) (shader_free_list_mask dev)"
    and "\<And>a. a \<in> set (shader_arenas dev) \<Longrightarrow> bo a \<in> set (ws dev)"
    and "pairwise_disjoint (map bo (shader_arenas dev))"
  shows "dev_inv c dev"
  using assms by (simp add: dev_inv_def)

lemma consts_okD:
  assumes "consts_ok c"
  shows "0 < ALLOC_NUM_FREE_LISTS c" "ALLOC_NUM_FREE_LISTS c \<le> 32"
    "ALLOC_ALIGNMENT c dvd 2 ^ 32" "0 < ALLOC_ALIGNMENT c"
    "get_size_class c s r < ALLOC_NUM_FREE_LISTS c"
    "0 < ALLOC_MIN_ARENA_SIZE c" "ALLOC_MIN_ARENA_SIZE c * 2 ^ ALLOC_MAX_ARENA_SIZE_SHIFT c < 2 ^ 32"
  using assms get_size_class_less[of c s r] by (simp_all add: consts_ok_def)

text \<open>A pointer of a free list is the address of a hole of that list's class.\<close>

lemma listed_hole:
  assumes inv: "dev_inv c dev" and k: "k < ALLOC_NUM_FREE_LISTS c"
    and h: "h \<in> set (shader_free_lists dev ! k)"
  shows "h \<in> blk ` set (all_blocks (shader_arenas dev))"
    and "locate (shader_arenas dev) h = Some (apre, a, apost, pre, hole, post) \<Longrightarrow>
         freelist hole = Linked \<and> get_size_class c (size_b hole) False = k"
proof -
  have hp: "h \<in> hole_ptrs c (all_blocks (shader_arenas dev)) k"
    using dev_invD(4)[OF inv] k h by (simp add: lists_ok_def)
  then show "h \<in> blk ` set (all_blocks (shader_arenas dev))"
    using hole_ptrs_subset by blast
  assume loc: "locate (shader_arenas dev) h = Some (apre, a, apost, pre, hole, post)"
  note l = locate_SomeD[OF loc]
  have mem: "hole \<in> set (all_blocks (shader_arenas dev))" using l(1,2) by simp
  have d: "distinct (map blk (all_blocks (shader_arenas dev)))"
    using dev_invD(2)[OF inv] by simp
  show "freelist hole = Linked \<and> get_size_class c (size_b hole) False = k"
    using hole_ptrs_mem[OF d mem, of c k] hp l(3) by simp
qed

lemma listed_class_unique:
  assumes inv: "dev_inv c dev" and k: "k < ALLOC_NUM_FREE_LISTS c"
    and h: "blk b \<in> set (shader_free_lists dev ! k)"
    and mem: "b \<in> set (all_blocks (shader_arenas dev))"
  shows "get_size_class c (size_b b) False = k" "freelist b = Linked"
proof -
  have hp: "blk b \<in> hole_ptrs c (all_blocks (shader_arenas dev)) k"
    using dev_invD(4)[OF inv] k h by (simp add: lists_ok_def)
  have d: "distinct (map blk (all_blocks (shader_arenas dev)))"
    using dev_invD(2)[OF inv] by simp
  show "get_size_class c (size_b b) False = k" "freelist b = Linked"
    using hole_ptrs_mem[OF d mem, of c k] hp by simp_all
qed

text \<open>Removing a hole of the arenas from the free lists.\<close>

lemma remove_hole_lists:
  assumes inv: "dev_inv c dev" and ok: "consts_ok c"
    and mem: "hole \<in> set (all_blocks (shader_arenas dev))"
  shows "lists_ok (ALLOC_NUM_FREE_LISTS c)
           (\<lambda>k. hole_ptrs c (all_blocks (shader_arenas dev)) k - {blk hole})
           (shader_free_lists (remove_hole c dev hole))"
    and "mask_ok (ALLOC_NUM_FREE_LISTS c) (shader_free_lists (remove_hole c dev hole))
           (shader_free_list_mask (remove_hole c dev hole))"
proof -
  let ?n = "ALLOC_NUM_FREE_LISTS c"
  let ?cls = "get_size_class c (size_b hole) False"
  note lo = dev_invD(4)[OF inv]
  show "lists_ok ?n (\<lambda>k. hole_ptrs c (all_blocks (shader_arenas dev)) k - {blk hole})
           (shader_free_lists (remove_hole c dev hole))"
    using lists_ok_remove[OF lo] by simp
  have len: "length (shader_free_lists dev) = ?n" using lo by (simp add: lists_ok_def)
  have other: "blk hole \<notin> set (shader_free_lists dev ! k)" if "k < ?n" "k \<noteq> ?cls" for k
    using listed_class_unique(1)[OF inv that(1) _ mem] that(2) by blast
  show "mask_ok ?n (shader_free_lists (remove_hole c dev hole))
           (shader_free_list_mask (remove_hole c dev hole))"
    unfolding remove_hole_fields remove_hole_mask
    by (rule mask_ok_remove[OF dev_invD(5)[OF inv] len consts_okD(5)[OF ok] consts_okD(2)[OF ok] other])
qed

lemma remove_hole_fl:
  assumes lo: "lists_ok (ALLOC_NUM_FREE_LISTS c) H (shader_free_lists d)"
    and mo: "mask_ok (ALLOC_NUM_FREE_LISTS c) (shader_free_lists d) (shader_free_list_mask d)"
    and ok: "consts_ok c"
    and other: "\<And>k. k < ALLOC_NUM_FREE_LISTS c \<Longrightarrow> k \<noteq> get_size_class c (size_b hole) False
                  \<Longrightarrow> blk hole \<notin> H k"
  shows "lists_ok (ALLOC_NUM_FREE_LISTS c) (\<lambda>k. H k - {blk hole})
           (shader_free_lists (remove_hole c d hole))"
    and "mask_ok (ALLOC_NUM_FREE_LISTS c) (shader_free_lists (remove_hole c d hole))
           (shader_free_list_mask (remove_hole c d hole))"
proof -
  let ?n = "ALLOC_NUM_FREE_LISTS c"
  show "lists_ok ?n (\<lambda>k. H k - {blk hole}) (shader_free_lists (remove_hole c d hole))"
    using lists_ok_remove[OF lo] by simp
  have len: "length (shader_free_lists d) = ?n" using lo by (simp add: lists_ok_def)
  have other': "blk hole \<notin> set (shader_free_lists d ! k)"
    if "k < ?n" "k \<noteq> get_size_class c (size_b hole) False" for k
    using other[OF that] lo that(1) by (simp add: lists_ok_def)
  show "mask_ok ?n (shader_free_lists (remove_hole c d hole))
           (shader_free_list_mask (remove_hole c d hole))"
    unfolding remove_hole_fields remove_hole_mask
    by (rule mask_ok_remove[OF mo len consts_okD(5)[OF ok] consts_okD(2)[OF ok] other'])
qed

lemma add_hole_fl:
  assumes lo: "lists_ok (ALLOC_NUM_FREE_LISTS c) H (shader_free_lists d)"
    and mo: "mask_ok (ALLOC_NUM_FREE_LISTS c) (shader_free_lists d) (shader_free_list_mask d)"
    and ok: "consts_ok c"
    and new: "blk hole \<notin> H (get_size_class c (size_b hole) False)"
  shows "lists_ok (ALLOC_NUM_FREE_LISTS c)
           (\<lambda>k. if k = get_size_class c (size_b hole) False then insert (blk hole) (H k) else H k)
           (shader_free_lists (add_hole c d hole))"
    and "mask_ok (ALLOC_NUM_FREE_LISTS c) (shader_free_lists (add_hole c d hole))
           (shader_free_list_mask (add_hole c d hole))"
proof -
  let ?n = "ALLOC_NUM_FREE_LISTS c"
  have len: "length (shader_free_lists d) = ?n" using lo by (simp add: lists_ok_def)
  show "lists_ok ?n
           (\<lambda>k. if k = get_size_class c (size_b hole) False then insert (blk hole) (H k) else H k)
           (shader_free_lists (add_hole c d hole))"
    unfolding add_hole_fields
    by (rule lists_ok_add[OF lo consts_okD(5)[OF ok] new])
  show "mask_ok ?n (shader_free_lists (add_hole c d hole))
           (shader_free_list_mask (add_hole c d hole))"
    unfolding add_hole_fields
    by (rule mask_ok_add[OF mo len consts_okD(5)[OF ok] consts_okD(2)[OF ok]])
qed

lemma located_blocks:
  assumes "as = apre @ a # apost" "entries a = pre @ b # post"
  shows "all_blocks as = (all_blocks apre @ pre) @ [b] @ (post @ all_blocks apost)"
    and "all_blocks (apre @ a\<lparr>entries := pre @ new @ post\<rparr> # apost) =
         (all_blocks apre @ pre) @ new @ (post @ all_blocks apost)"
  using assms by simp_all

lemma distinct_mid:
  assumes "distinct (map blk (X @ [b] @ Y) @ pool)"
  shows "blk ` set [b] \<inter> blk ` set X = {}" "blk ` set [b] \<inter> blk ` set Y = {}"
    "blk b \<notin> set pool" "blk b \<notin> blk ` set X" "blk b \<notin> blk ` set Y"
  using assms by auto

lemma arenas_update_inv:
  assumes "\<And>x. x \<in> set (apre @ a # apost) \<Longrightarrow> P x" "P a'"
  shows "x \<in> set (apre @ a' # apost) \<Longrightarrow> P x"
  using assms by auto

lemma dev_inv_exact:
  assumes inv: "dev_inv c dev" and ok: "consts_ok c"
    and loc: "locate (shader_arenas dev) h = Some (apre, a, apost, pre, hole, post)"
  shows "dev_inv c ((remove_hole c dev hole)\<lparr>shader_arenas :=
           apre @ a\<lparr>entries := pre @ hole\<lparr>freelist := Unlinked ptr\<rparr> # post\<rparr> # apost\<rparr>)"
    (is "dev_inv c ?dev'")
proof (rule dev_invI)
  note l = locate_SomeD[OF loc]
  let ?X = "all_blocks apre @ pre" and ?Y = "post @ all_blocks apost"
  let ?a' = "a\<lparr>entries := pre @ hole\<lparr>freelist := Unlinked ptr\<rparr> # post\<rparr>"
  let ?H = "hole_ptrs c (all_blocks (shader_arenas dev))"
  have ab: "all_blocks (shader_arenas dev) = ?X @ [hole] @ ?Y" using l(1,2) by simp
  have ab': "all_blocks (shader_arenas ?dev') = ?X @ [hole\<lparr>freelist := Unlinked ptr\<rparr>] @ ?Y" by simp
  have d: "distinct (map blk (?X @ [hole] @ ?Y) @ shader_block_obj_pool dev)"
    using dev_invD(2)[OF inv] unfolding ab .
  note dm = distinct_mid[OF d]
  have a_in: "a \<in> set (shader_arenas dev)" using l(1) by simp
  have ainv: "arena_inv c ?a'" using arena_inv_exact[OF dev_invD(1)[OF inv a_in] l(2)] .
  show "arena_inv c x" if "x \<in> set (shader_arenas ?dev')" for x
    using that dev_invD(1)[OF inv] ainv l(1) by auto
  show "distinct (map blk (all_blocks (shader_arenas ?dev')) @ shader_block_obj_pool ?dev')"
    unfolding ab' using d by simp
  show "distinct (map arena_ptr (shader_arenas ?dev'))"
    using dev_invD(3)[OF inv] l(1) by simp
  have mem: "hole \<in> set (all_blocks (shader_arenas dev))" unfolding ab by simp
  have dd: "distinct (map blk (all_blocks (shader_arenas dev)))" using dev_invD(2)[OF inv] by simp
  have other: "blk hole \<notin> ?H k" if "k \<noteq> get_size_class c (size_b hole) False" for k
    using hole_ptrs_mem[OF dd mem, of c k] that by simp
  note r = remove_hole_fl[OF dev_invD(4)[OF inv] dev_invD(5)[OF inv] ok other]
  have eq: "hole_ptrs c (all_blocks (shader_arenas ?dev')) k = ?H k - {blk hole}" for k
    unfolding ab ab'
    using hole_ptrs_replace[OF dm(1,2), of c "[hole\<lparr>freelist := Unlinked ptr\<rparr>]" k] by simp
  show "lists_ok (ALLOC_NUM_FREE_LISTS c) (hole_ptrs c (all_blocks (shader_arenas ?dev')))
           (shader_free_lists ?dev')"
  proof (rule lists_ok_cong)
    show "lists_ok (ALLOC_NUM_FREE_LISTS c) (\<lambda>k. ?H k - {blk hole}) (shader_free_lists ?dev')"
      using r(1) by simp
    show "?H k - {blk hole} = hole_ptrs c (all_blocks (shader_arenas ?dev')) k" for k
      by (simp only: eq)
  qed
  show "mask_ok (ALLOC_NUM_FREE_LISTS c) (shader_free_lists ?dev') (shader_free_list_mask ?dev')"
    using r(2) by simp
  show "bo x \<in> set (ws ?dev')" if "x \<in> set (shader_arenas ?dev')" for x
    using that dev_invD(6)[OF inv] l(1) by auto
  show "pairwise_disjoint (map bo (shader_arenas ?dev'))" using dev_invD(7)[OF inv] l(1) by simp
qed

lemma distinct_append_subset:
  assumes "distinct (xs @ ys)" "distinct ys'" "set ys' \<subseteq> set ys"
  shows "distinct (xs @ ys')"
  using assms by auto

lemma distinct_insert_mid:
  assumes "distinct (xs @ [h] @ ys @ pool)" "al \<notin> set xs" "al \<noteq> h" "al \<notin> set ys" "al \<notin> set pool"
  shows "distinct (xs @ [al, h] @ ys @ pool)"
  using assms by auto

lemma hole_ptrs_split_eq:
  assumes "blk hole \<notin> blk ` set X" "blk hole \<notin> blk ` set Y"
    "freelist ablk \<noteq> Linked" "blk hole' = blk hole" "freelist hole' = Linked"
  shows "hole_ptrs c (X @ [ablk, hole'] @ Y) k =
      (if k = get_size_class c (size_b hole') False
       then insert (blk hole') (hole_ptrs c (X @ [hole] @ Y) k - {blk hole})
       else hole_ptrs c (X @ [hole] @ Y) k - {blk hole})"
proof -
  have 1: "blk ` set [hole] \<inter> blk ` set X = {}" "blk ` set [hole] \<inter> blk ` set Y = {}"
    using assms(1,2) by simp_all
  have 2: "hole_ptrs c [ablk, hole'] k =
     (if k = get_size_class c (size_b hole') False then {blk hole'} else {})"
    using assms(3,5) by auto
  show ?thesis
    unfolding hole_ptrs_replace[OF 1, of c "[ablk, hole']" k] 2
    by (cases "k = get_size_class c (size_b hole') False") simp_all
qed

lemma dev_inv_split:
  assumes inv: "dev_inv c dev" and ok: "consts_ok c"
    and loc: "locate (shader_arenas dev) h = Some (apre, a, apost, pre, hole, post)"
    and lk: "freelist hole = Linked" and lt: "sz < size_b hole"
    and dv: "ALLOC_ALIGNMENT c dvd sz"
    and pool: "distinct pool'" "set pool' \<subseteq> set (shader_block_obj_pool dev)"
    and fresh: "al \<notin> set pool'" "al \<notin> blk ` set (all_blocks (shader_arenas dev))"
  shows "dev_inv c
     ((add_hole c (remove_hole c (dev\<lparr>shader_block_obj_pool := pool'\<rparr>) hole)
         (hole\<lparr>offset := u32 (offset hole + sz), size_b := sub_u32 (size_b hole) sz\<rparr>))
      \<lparr>shader_arenas :=
          apre @ a\<lparr>entries := pre @
            \<lparr>blk = al, offset = offset hole, size_b = sz, freelist = Unlinked ptr\<rparr> #
            hole\<lparr>offset := u32 (offset hole + sz), size_b := sub_u32 (size_b hole) sz\<rparr> # post\<rparr> # apost\<rparr>)"
    (is "dev_inv c ?dev'")
proof (rule dev_invI)
  note l = locate_SomeD[OF loc]
  let ?X = "all_blocks apre @ pre" and ?Y = "post @ all_blocks apost"
  let ?ablk = "\<lparr>blk = al, offset = offset hole, size_b = sz, freelist = Unlinked ptr\<rparr>"
  let ?hole' = "hole\<lparr>offset := u32 (offset hole + sz), size_b := sub_u32 (size_b hole) sz\<rparr>"
  let ?a' = "a\<lparr>entries := pre @ ?ablk # ?hole' # post\<rparr>"
  let ?H = "hole_ptrs c (all_blocks (shader_arenas dev))"
  let ?n = "ALLOC_NUM_FREE_LISTS c"
  let ?d0 = "dev\<lparr>shader_block_obj_pool := pool'\<rparr>"
  have ab: "all_blocks (shader_arenas dev) = ?X @ [hole] @ ?Y" using l(1,2) by simp
  have ab': "all_blocks (shader_arenas ?dev') = ?X @ [?ablk, ?hole'] @ ?Y" by simp
  have d: "distinct (map blk (?X @ [hole] @ ?Y) @ shader_block_obj_pool dev)"
    using dev_invD(2)[OF inv] unfolding ab .
  note dm = distinct_mid[OF d]
  have a_in: "a \<in> set (shader_arenas dev)" using l(1) by simp
  have ainv: "arena_inv c ?a'"
    using arena_inv_split[OF dev_invD(1)[OF inv a_in] l(2) lk lt dv] .
  show "arena_inv c x" if "x \<in> set (shader_arenas ?dev')" for x
    using that dev_invD(1)[OF inv] ainv l(1) by auto
  have alX: "al \<notin> set (map blk ?X)" "al \<noteq> blk hole" "al \<notin> set (map blk ?Y)"
    using fresh(2) unfolding ab by (auto simp: image_Un)
  have dp: "distinct (map blk (?X @ [hole] @ ?Y) @ pool')"
    by (rule distinct_append_subset[OF d pool])
  then have dp': "distinct (map blk ?X @ [blk hole] @ map blk ?Y @ pool')" by simp
  have "distinct (map blk ?X @ [al, blk hole] @ map blk ?Y @ pool')"
    by (rule distinct_insert_mid[OF dp' alX fresh(1)])
  then show "distinct (map blk (all_blocks (shader_arenas ?dev')) @ shader_block_obj_pool ?dev')"
    unfolding ab' by simp
  show "distinct (map arena_ptr (shader_arenas ?dev'))"
    using dev_invD(3)[OF inv] l(1) by simp
  have mem: "hole \<in> set (all_blocks (shader_arenas dev))" unfolding ab by simp
  have dd: "distinct (map blk (all_blocks (shader_arenas dev)))" using dev_invD(2)[OF inv] by simp
  have other: "blk hole \<notin> ?H k" if "k \<noteq> get_size_class c (size_b hole) False" for k
    using hole_ptrs_mem[OF dd mem, of c k] that by simp
  have lo0: "lists_ok ?n ?H (shader_free_lists ?d0)" using dev_invD(4)[OF inv] by simp
  have mo0: "mask_ok ?n (shader_free_lists ?d0) (shader_free_list_mask ?d0)"
    using dev_invD(5)[OF inv] by simp
  note r = remove_hole_fl[OF lo0 mo0 ok other]
  have new: "blk ?hole' \<notin> ?H (get_size_class c (size_b ?hole') False) - {blk hole}" by simp
  note ad = add_hole_fl[OF r ok new]
  have eq: "hole_ptrs c (all_blocks (shader_arenas ?dev')) k =
      (if k = get_size_class c (size_b ?hole') False then insert (blk ?hole') (?H k - {blk hole})
       else ?H k - {blk hole})" for k
    unfolding ab ab'
    by (rule hole_ptrs_split_eq[OF dm(4,5)]) (simp_all add: lk)
  show "lists_ok ?n (hole_ptrs c (all_blocks (shader_arenas ?dev'))) (shader_free_lists ?dev')"
  proof (rule lists_ok_cong)
    show "lists_ok ?n (\<lambda>k. if k = get_size_class c (size_b ?hole') False
             then insert (blk ?hole') (?H k - {blk hole}) else ?H k - {blk hole})
           (shader_free_lists ?dev')"
      using ad(1) by simp
    show "(if k = get_size_class c (size_b ?hole') False
             then insert (blk ?hole') (?H k - {blk hole}) else ?H k - {blk hole})
          = hole_ptrs c (all_blocks (shader_arenas ?dev')) k" for k
      by (simp only: eq)
  qed
  show "mask_ok ?n (shader_free_lists ?dev') (shader_free_list_mask ?dev')"
    using ad(2) by simp
  show "bo x \<in> set (ws ?dev')" if "x \<in> set (shader_arenas ?dev')" for x
    using that dev_invD(6)[OF inv] l(1) by auto
  show "pairwise_disjoint (map bo (shader_arenas ?dev'))" using dev_invD(7)[OF inv] l(1) by simp
qed

lemma bo_disjoint_sym: "bo_disjoint b b' \<longleftrightarrow> bo_disjoint b' b"
  by (auto simp: bo_disjoint_def)

lemma pairwise_disjoint_append:
  "pairwise_disjoint (xs @ ys) \<longleftrightarrow>
     pairwise_disjoint xs \<and> pairwise_disjoint ys \<and> (\<forall>x\<in>set xs. \<forall>y\<in>set ys. bo_disjoint x y)"
  by (induction xs) auto

lemma dev_inv_pool_ws:
  assumes inv: "dev_inv c dev"
    and pool: "distinct pool'" "set pool' \<subseteq> set (shader_block_obj_pool dev)"
    and w: "set (ws dev) \<subseteq> set ws'"
  shows "dev_inv c (dev\<lparr>ws := ws', shader_block_obj_pool := pool'\<rparr>)"
proof (rule dev_invI)
  let ?dev' = "dev\<lparr>ws := ws', shader_block_obj_pool := pool'\<rparr>"
  show "arena_inv c x" if "x \<in> set (shader_arenas ?dev')" for x
    using that dev_invD(1)[OF inv] by simp
  show "distinct (map blk (all_blocks (shader_arenas ?dev')) @ shader_block_obj_pool ?dev')"
    using dev_invD(2)[OF inv] pool by auto
  show "distinct (map arena_ptr (shader_arenas ?dev'))" using dev_invD(3)[OF inv] by simp
  show "lists_ok (ALLOC_NUM_FREE_LISTS c) (hole_ptrs c (all_blocks (shader_arenas ?dev')))
           (shader_free_lists ?dev')" using dev_invD(4)[OF inv] by simp
  show "mask_ok (ALLOC_NUM_FREE_LISTS c) (shader_free_lists ?dev') (shader_free_list_mask ?dev')"
    using dev_invD(5)[OF inv] by simp
  show "bo x \<in> set (ws ?dev')" if "x \<in> set (shader_arenas ?dev')" for x
    using that dev_invD(6)[OF inv] w by auto
  show "pairwise_disjoint (map bo (shader_arenas ?dev'))" using dev_invD(7)[OF inv] by simp
qed

lemma dev_inv_new2:
  assumes inv: "dev_inv c dev" and ok: "consts_ok c"
    and dv: "ALLOC_ALIGNMENT c dvd sz" "ALLOC_ALIGNMENT c dvd asz" and lt: "sz < asz" "asz < 2 ^ 32"
    and pool: "distinct pool'" "set pool' \<subseteq> set (shader_block_obj_pool dev)"
    and fresh: "al \<notin> set pool'" "al \<notin> blk ` set (all_blocks (shader_arenas dev))"
       "ho \<notin> set pool'" "ho \<notin> blk ` set (all_blocks (shader_arenas dev))" "ho \<noteq> al"
    and ar: "ar \<notin> set (map arena_ptr (shader_arenas dev))"
    and dj: "\<forall>x\<in>set (ws dev). bo_disjoint x \<lparr>bo_handle = h, bo_va = va, bo_size = asz\<rparr>"
  shows "dev_inv c
     ((add_hole c (dev\<lparr>ws := ws dev @ [\<lparr>bo_handle = h, bo_va = va, bo_size = asz\<rparr>],
                        shader_block_obj_pool := pool'\<rparr>)
         \<lparr>blk = ho, offset = sz, size_b = asz - sz, freelist = Linked\<rparr>)
      \<lparr>shader_arena_shift := sh,
       shader_arenas := shader_arenas dev @
         [\<lparr>arena_ptr = ar, bo = \<lparr>bo_handle = h, bo_va = va, bo_size = asz\<rparr>,
           entries = [\<lparr>blk = al, offset = 0, size_b = sz, freelist = Unlinked ptr\<rparr>,
                      \<lparr>blk = ho, offset = sz, size_b = asz - sz, freelist = Linked\<rparr>]\<rparr>]\<rparr>)"
    (is "dev_inv c ?dev'")
proof (rule dev_invI)
  let ?b = "\<lparr>bo_handle = h, bo_va = va, bo_size = asz\<rparr>"
  let ?ablk = "\<lparr>blk = al, offset = 0, size_b = sz, freelist = Unlinked ptr\<rparr>"
  let ?hblk = "\<lparr>blk = ho, offset = sz, size_b = asz - sz, freelist = Linked\<rparr>"
  let ?ar = "\<lparr>arena_ptr = ar, bo = ?b, entries = [?ablk, ?hblk]\<rparr>"
  let ?H = "hole_ptrs c (all_blocks (shader_arenas dev))"
  let ?n = "ALLOC_NUM_FREE_LISTS c"
  let ?d0 = "dev\<lparr>ws := ws dev @ [?b], shader_block_obj_pool := pool'\<rparr>"
  have ainv: "arena_inv c ?ar" by (rule arena_inv_new2[OF dv lt])
  show "arena_inv c x" if "x \<in> set (shader_arenas ?dev')" for x
    using that dev_invD(1)[OF inv] ainv by auto
  have dp: "distinct (map blk (all_blocks (shader_arenas dev)) @ pool')"
    using dev_invD(2)[OF inv] pool by auto
  show "distinct (map blk (all_blocks (shader_arenas ?dev')) @ shader_block_obj_pool ?dev')"
    using dp fresh by auto
  show "distinct (map arena_ptr (shader_arenas ?dev'))"
    using dev_invD(3)[OF inv] ar by simp
  have lo0: "lists_ok ?n ?H (shader_free_lists ?d0)" using dev_invD(4)[OF inv] by simp
  have mo0: "mask_ok ?n (shader_free_lists ?d0) (shader_free_list_mask ?d0)"
    using dev_invD(5)[OF inv] by simp
  have new: "blk ?hblk \<notin> ?H (get_size_class c (size_b ?hblk) False)"
    using fresh(4) hole_ptrs_subset[of c "all_blocks (shader_arenas dev)"] by auto
  note ad = add_hole_fl[OF lo0 mo0 ok new]
  show "lists_ok ?n (hole_ptrs c (all_blocks (shader_arenas ?dev'))) (shader_free_lists ?dev')"
  proof (rule lists_ok_cong)
    show "lists_ok ?n (\<lambda>k. if k = get_size_class c (size_b ?hblk) False
             then insert (blk ?hblk) (?H k) else ?H k)
           (shader_free_lists ?dev')"
      using ad(1) by simp
    show "(if k = get_size_class c (size_b ?hblk) False
             then insert (blk ?hblk) (?H k) else ?H k)
          = hole_ptrs c (all_blocks (shader_arenas ?dev')) k" for k
      by auto
  qed
  show "mask_ok ?n (shader_free_lists ?dev') (shader_free_list_mask ?dev')"
    using ad(2) by simp
  show "bo x \<in> set (ws ?dev')" if "x \<in> set (shader_arenas ?dev')" for x
    using that dev_invD(6)[OF inv] by auto
  have "\<forall>x\<in>set (map bo (shader_arenas dev)). bo_disjoint x ?b"
    using dj dev_invD(6)[OF inv] by auto
  then show "pairwise_disjoint (map bo (shader_arenas ?dev'))"
    using dev_invD(7)[OF inv] by (simp add: pairwise_disjoint_append)
qed

lemma dev_inv_new1:
  assumes inv: "dev_inv c dev" and ok: "consts_ok c"
    and dv: "ALLOC_ALIGNMENT c dvd sz" and lt: "0 < sz" "sz < 2 ^ 32"
    and pool: "distinct pool'" "set pool' \<subseteq> set (shader_block_obj_pool dev)"
    and fresh: "al \<notin> set pool'" "al \<notin> blk ` set (all_blocks (shader_arenas dev))"
    and ar: "ar \<notin> set (map arena_ptr (shader_arenas dev))"
    and dj: "\<forall>x\<in>set (ws dev). bo_disjoint x \<lparr>bo_handle = h, bo_va = va, bo_size = sz\<rparr>"
  shows "dev_inv c
     (dev\<lparr>ws := ws dev @ [\<lparr>bo_handle = h, bo_va = va, bo_size = sz\<rparr>],
                        shader_block_obj_pool := pool',
       shader_arena_shift := sh,
       shader_arenas := shader_arenas dev @
         [\<lparr>arena_ptr = ar, bo = \<lparr>bo_handle = h, bo_va = va, bo_size = sz\<rparr>,
           entries = [\<lparr>blk = al, offset = 0, size_b = sz, freelist = Unlinked ptr\<rparr>]\<rparr>]\<rparr>)"
    (is "dev_inv c ?dev'")
proof (rule dev_invI)
  let ?b = "\<lparr>bo_handle = h, bo_va = va, bo_size = sz\<rparr>"
  let ?ablk = "\<lparr>blk = al, offset = 0, size_b = sz, freelist = Unlinked ptr\<rparr>"
  let ?ar = "\<lparr>arena_ptr = ar, bo = ?b, entries = [?ablk]\<rparr>"
  have ainv: "arena_inv c ?ar" by (rule arena_inv_new1[OF dv lt(2,1)])
  show "arena_inv c x" if "x \<in> set (shader_arenas ?dev')" for x
    using that dev_invD(1)[OF inv] ainv by auto
  have dp: "distinct (map blk (all_blocks (shader_arenas dev)) @ pool')"
    using dev_invD(2)[OF inv] pool by auto
  show "distinct (map blk (all_blocks (shader_arenas ?dev')) @ shader_block_obj_pool ?dev')"
    using dp fresh by auto
  show "distinct (map arena_ptr (shader_arenas ?dev'))"
    using dev_invD(3)[OF inv] ar by simp
  show "lists_ok (ALLOC_NUM_FREE_LISTS c) (hole_ptrs c (all_blocks (shader_arenas ?dev')))
          (shader_free_lists ?dev')"
  proof (rule lists_ok_cong)
    show "lists_ok (ALLOC_NUM_FREE_LISTS c) (hole_ptrs c (all_blocks (shader_arenas dev)))
          (shader_free_lists ?dev')"
      using dev_invD(4)[OF inv] by simp
    show "hole_ptrs c (all_blocks (shader_arenas dev)) k =
          hole_ptrs c (all_blocks (shader_arenas ?dev')) k" for k
      by simp
  qed
  show "mask_ok (ALLOC_NUM_FREE_LISTS c) (shader_free_lists ?dev') (shader_free_list_mask ?dev')"
    using dev_invD(5)[OF inv] by simp
  show "bo x \<in> set (ws ?dev')" if "x \<in> set (shader_arenas ?dev')" for x
    using that dev_invD(6)[OF inv] by auto
  have "\<forall>x\<in>set (map bo (shader_arenas dev)). bo_disjoint x ?b"
    using dj dev_invD(6)[OF inv] by auto
  then show "pairwise_disjoint (map bo (shader_arenas ?dev'))"
    using dev_invD(7)[OF inv] by (simp add: pairwise_disjoint_append)
qed

lemma first_obj_eq:
  "first_obj dev e = (case shader_block_obj_pool dev of [] \<Rightarrow> env_malloc1 e | b # _ \<Rightarrow> Some b)"
  by (simp add: first_obj_def alloc_block_obj_eq)

lemma second_obj_eq:
  "second_obj dev e = (case tl (shader_block_obj_pool dev) of [] \<Rightarrow> env_malloc2 e | b # _ \<Rightarrow> Some b)"
  by (simp add: second_obj_def alloc_block_obj_eq)

lemma first_obj_ws [simp]: "first_obj (dev\<lparr>ws := w\<rparr>) e = first_obj dev e"
  "second_obj (dev\<lparr>ws := w\<rparr>) e = second_obj dev e"
  by (simp_all add: first_obj_eq second_obj_eq)

lemma alloc_from_hole_exact:
  assumes "locate (shader_arenas dev) h = Some (apre, a, apost, pre, hole, post)" "sz = size_b hole"
  shows "alloc_from_hole c e dev sz ptr h =
       Some (Some h, (remove_hole c dev hole)\<lparr>shader_arenas :=
                    apre @ a\<lparr>entries := pre @ hole\<lparr>freelist := Unlinked ptr\<rparr> # post\<rparr> # apost\<rparr>)"
  using assms by (simp add: alloc_from_hole_def Let_def)

lemma alloc_from_hole_nomem:
  assumes "locate (shader_arenas dev) h = Some (apre, a, apost, pre, hole, post)" "sz \<noteq> size_b hole"
    "first_obj dev e = None"
  shows "alloc_from_hole c e dev sz ptr h = Some (None, dev)"
  using assms by (simp add: alloc_from_hole_def Let_def alloc_block_obj_eq first_obj_eq split: list.splits)

lemma alloc_from_hole_split:
  assumes "locate (shader_arenas dev) h = Some (apre, a, apost, pre, hole, post)" "sz \<noteq> size_b hole"
    "first_obj dev e = Some alloc"
  shows "alloc_from_hole c e dev sz ptr h =
       Some (Some alloc,
         (add_hole c (remove_hole c (dev\<lparr>shader_block_obj_pool := tl (shader_block_obj_pool dev)\<rparr>) hole)
             (hole\<lparr>offset := u32 (offset hole + sz), size_b := sub_u32 (size_b hole) sz\<rparr>))
         \<lparr>shader_arenas :=
             apre @ a\<lparr>entries := pre @
               \<lparr>blk = alloc, offset = offset hole, size_b = sz, freelist = Unlinked ptr\<rparr> #
               hole\<lparr>offset := u32 (offset hole + sz), size_b := sub_u32 (size_b hole) sz\<rparr> # post\<rparr> # apost\<rparr>)"
  using assms by (simp add: alloc_from_hole_def Let_def alloc_block_obj_eq first_obj_eq split: list.splits)

lemma alloc_new_arena_fail1:
  "env_calloc e = None \<Longrightarrow> alloc_new_arena c e dev sz ptr = (None, dev)"
  "env_calloc e = Some ar \<Longrightarrow> env_buffer_create e = None \<Longrightarrow> alloc_new_arena c e dev sz ptr = (None, dev)"
  by (simp_all add: alloc_new_arena_def)

lemma alloc_new_arena_fail2:
  "env_calloc e = Some ar \<Longrightarrow> env_buffer_create e = Some (h, va) \<Longrightarrow> \<not> env_buffer_map e \<Longrightarrow>
   alloc_new_arena c e dev sz ptr =
     (None, dev\<lparr>ws := removeAll \<lparr>bo_handle = h, bo_va = va, bo_size = arena_size_of c dev sz\<rparr>
                        (ws dev @ [\<lparr>bo_handle = h, bo_va = va, bo_size = arena_size_of c dev sz\<rparr>])\<rparr>)"
  by (simp add: alloc_new_arena_def Let_def buffer_destroy_def)

lemma alloc_new_arena_fail3:
  assumes "env_calloc e = Some ar" "env_buffer_create e = Some (h, va)" "env_buffer_map e"
    "sz < arena_size_of c dev sz" "first_obj dev e = None \<or> second_obj dev e = None"
  shows "alloc_new_arena c e dev sz ptr =
     (None, dev\<lparr>ws := removeAll \<lparr>bo_handle = h, bo_va = va, bo_size = arena_size_of c dev sz\<rparr>
                        (ws dev @ [\<lparr>bo_handle = h, bo_va = va, bo_size = arena_size_of c dev sz\<rparr>]),
                shader_block_obj_pool := tl (tl (shader_block_obj_pool dev))\<rparr>)"
  using assms
  by (auto simp: alloc_new_arena_def Let_def buffer_destroy_def alloc_block_obj_eq first_obj_eq second_obj_eq
        split: option.splits)

lemma alloc_new_arena_fail4:
  assumes "env_calloc e = Some ar" "env_buffer_create e = Some (h, va)" "env_buffer_map e"
    "\<not> sz < arena_size_of c dev sz" "first_obj dev e = None"
  shows "alloc_new_arena c e dev sz ptr =
     (None, dev\<lparr>ws := removeAll \<lparr>bo_handle = h, bo_va = va, bo_size = arena_size_of c dev sz\<rparr>
                        (ws dev @ [\<lparr>bo_handle = h, bo_va = va, bo_size = arena_size_of c dev sz\<rparr>]),
                shader_block_obj_pool := tl (shader_block_obj_pool dev)\<rparr>)"
  using assms
  by (auto simp: alloc_new_arena_def Let_def buffer_destroy_def alloc_block_obj_eq first_obj_eq second_obj_eq
        split: option.splits)

lemma alloc_new_arena_two:
  assumes "env_calloc e = Some ar" "env_buffer_create e = Some (h, va)" "env_buffer_map e"
    "sz < arena_size_of c dev sz" "first_obj dev e = Some al" "second_obj dev e = Some ho" "ho \<noteq> al"
  shows "alloc_new_arena c e dev sz ptr =
     (Some al,
      (add_hole c (dev\<lparr>ws := ws dev @ [\<lparr>bo_handle = h, bo_va = va, bo_size = arena_size_of c dev sz\<rparr>],
                        shader_block_obj_pool := tl (tl (shader_block_obj_pool dev))\<rparr>)
         \<lparr>blk = ho, offset = sz, size_b = arena_size_of c dev sz - sz, freelist = Linked\<rparr>)
      \<lparr>shader_arena_shift := shader_arena_shift dev + 1,
       shader_arenas := shader_arenas dev @
         [\<lparr>arena_ptr = ar, bo = \<lparr>bo_handle = h, bo_va = va, bo_size = arena_size_of c dev sz\<rparr>,
           entries = [\<lparr>blk = al, offset = 0, size_b = sz, freelist = Unlinked ptr\<rparr>,
                      \<lparr>blk = ho, offset = sz, size_b = arena_size_of c dev sz - sz, freelist = Linked\<rparr>]\<rparr>]\<rparr>)"
  using assms
  by (simp add: alloc_new_arena_def Let_def alloc_block_obj_eq first_obj_eq second_obj_eq)

lemma alloc_new_arena_same:
  assumes "env_calloc e = Some ar" "env_buffer_create e = Some (h, va)" "env_buffer_map e"
    "sz < arena_size_of c dev sz" "first_obj dev e = Some al" "second_obj dev e = Some al"
  shows "alloc_new_arena c e dev sz ptr =
     (Some al,
      dev\<lparr>ws := ws dev @ [\<lparr>bo_handle = h, bo_va = va, bo_size = arena_size_of c dev sz\<rparr>],
                        shader_block_obj_pool := tl (tl (shader_block_obj_pool dev)),
       shader_arena_shift := shader_arena_shift dev + 1,
       shader_arenas := shader_arenas dev @
         [\<lparr>arena_ptr = ar, bo = \<lparr>bo_handle = h, bo_va = va, bo_size = arena_size_of c dev sz\<rparr>,
           entries = [\<lparr>blk = al, offset = 0, size_b = sz, freelist = Unlinked ptr\<rparr>]\<rparr>]\<rparr>)"
  using assms
  by (simp add: alloc_new_arena_def Let_def alloc_block_obj_eq first_obj_eq second_obj_eq)

lemma alloc_new_arena_one:
  assumes "env_calloc e = Some ar" "env_buffer_create e = Some (h, va)" "env_buffer_map e"
    "\<not> sz < arena_size_of c dev sz" "first_obj dev e = Some al"
  shows "alloc_new_arena c e dev sz ptr =
     (Some al,
      dev\<lparr>ws := ws dev @ [\<lparr>bo_handle = h, bo_va = va, bo_size = arena_size_of c dev sz\<rparr>],
                        shader_block_obj_pool := tl (shader_block_obj_pool dev),
       shader_arena_shift := shader_arena_shift dev + 1,
       shader_arenas := shader_arenas dev @
         [\<lparr>arena_ptr = ar, bo = \<lparr>bo_handle = h, bo_va = va, bo_size = arena_size_of c dev sz\<rparr>,
           entries = [\<lparr>blk = al, offset = 0, size_b = sz, freelist = Unlinked ptr\<rparr>]\<rparr>]\<rparr>)"
  using assms
  by (simp add: alloc_new_arena_def Let_def alloc_block_obj_eq first_obj_eq second_obj_eq)

lemma set_tl_subset: "set (tl xs) \<subseteq> set xs"
  by (cases xs) auto

lemma first_obj_fresh:
  assumes d: "distinct (bl @ shader_block_obj_pool dev)"
    and env: "\<forall>p. env_malloc1 e = Some p \<longrightarrow> p \<notin> set bl \<and> p \<notin> set (shader_block_obj_pool dev)"
    and f: "first_obj dev e = Some al"
  shows "al \<notin> set (tl (shader_block_obj_pool dev))" "al \<notin> set bl"
proof -
  show "al \<notin> set (tl (shader_block_obj_pool dev))"
  proof (cases "shader_block_obj_pool dev")
    case Nil
    then show ?thesis by simp
  next
    case (Cons x xs)
    then show ?thesis using d f by (simp add: first_obj_eq)
  qed
  show "al \<notin> set bl"
  proof (cases "shader_block_obj_pool dev")
    case Nil
    then show ?thesis using env f by (simp add: first_obj_eq)
  next
    case (Cons x xs)
    then show ?thesis using d f by (auto simp add: first_obj_eq)
  qed
qed

lemma second_obj_fresh:
  assumes d: "distinct (bl @ shader_block_obj_pool dev)"
    and env: "\<forall>p. env_malloc1 e = Some p \<longrightarrow> p \<notin> set bl \<and> p \<notin> set (shader_block_obj_pool dev)"
    and env2: "\<forall>q. env_malloc2 e = Some q \<longrightarrow> q \<notin> set bl \<and> q \<notin> set (shader_block_obj_pool dev)
                 \<and> env_malloc1 e \<noteq> Some q"
    and f: "first_obj dev e = Some al" and s: "second_obj dev e = Some ho"
  shows "ho \<notin> set (tl (tl (shader_block_obj_pool dev)))" "ho \<notin> set bl" "ho \<noteq> al"
    "al \<notin> set (tl (tl (shader_block_obj_pool dev)))"
proof -
  consider (0) "shader_block_obj_pool dev = []"
    | (1) x where "shader_block_obj_pool dev = [x]"
    | (2) x y zs where "shader_block_obj_pool dev = x # y # zs"
    by (cases "shader_block_obj_pool dev" rule: list.exhaust[case_product list.exhaust])
       (auto, metis list.exhaust)
  then have "ho \<notin> set (tl (tl (shader_block_obj_pool dev))) \<and> ho \<notin> set bl \<and> ho \<noteq> al \<and>
    al \<notin> set (tl (tl (shader_block_obj_pool dev)))"
  proof cases
    case 0
    then show ?thesis using env env2 f s by (auto simp: first_obj_eq second_obj_eq)
  next
    case 1
    then show ?thesis using d env env2 f s by (auto simp: first_obj_eq second_obj_eq)
  next
    case 2
    then show ?thesis using d f s by (auto simp: first_obj_eq second_obj_eq)
  qed
  then show "ho \<notin> set (tl (tl (shader_block_obj_pool dev)))" "ho \<notin> set bl" "ho \<noteq> al"
    "al \<notin> set (tl (tl (shader_block_obj_pool dev)))" by simp_all
qed

lemma ffs_zero: "ffs w = 0 \<longleftrightarrow> (\<forall>k. \<not> bit w k)"
proof -
  have "find (bit w) [0..<32] = None \<longleftrightarrow> (\<forall>k. \<not> bit w k)"
    using nbit32[of _ w] by (auto simp: find_None_iff)
  then show ?thesis by (auto simp: ffs_def split: option.splits)
qed

lemma ffs_Suc: "ffs w = Suc k \<longleftrightarrow> bit w k \<and> (\<forall>j<k. \<not> bit w j)"
proof -
  have "find (bit w) [0..<32] = Some k \<longleftrightarrow> bit w k \<and> (\<forall>j<k. \<not> bit w j)"
  proof
    assume "find (bit w) [0..<32] = Some k"
    then obtain i where i: "i < length [0..<32]" "bit w ([0..<32] ! i)" "k = [0..<32] ! i"
      "\<forall>j<i. \<not> bit w ([0..<32] ! j)"
      unfolding find_Some_iff by blast
    then have ki: "k = i" by simp
    show "bit w k \<and> (\<forall>j<k. \<not> bit w j)" using i unfolding ki by auto
  next
    assume a: "bit w k \<and> (\<forall>j<k. \<not> bit w j)"
    then have k32: "k < 32" using nbit32[of k w] by blast
    show "find (bit w) [0..<32] = Some k"
      unfolding find_Some_iff
      by (rule exI[of _ k]) (use a k32 in auto)
  qed
  then show ?thesis by (auto simp: ffs_def split: option.splits)
qed

lemma bit_BITFIELD_MASK: "n \<le> 32 \<Longrightarrow> bit (BITFIELD_MASK n) j \<longleftrightarrow> j < n"
proof -
  assume n: "n \<le> 32"
  have "BITFIELD_MASK n = mask n"
  proof (cases "n = 32")
    case True
    have "(- 1 :: 32 word) = mask 32"
      by (rule bit_word_eqI) (simp add: bit_mask_iff)
    then show ?thesis using True by (simp add: BITFIELD_MASK_def)
  next
    case False
    with n have "n mod 32 = n" by simp
    then show ?thesis using False by (simp add: BITFIELD_MASK_def mask_eq_exp_minus_1)
  qed
  then show ?thesis using n by (auto simp: bit_mask_iff)
qed

lemma bit_search_mask:
  assumes "n \<le> 32"
  shows "bit (m AND push_bit cls (BITFIELD_MASK n)) k \<longleftrightarrow> bit (m::32 word) k \<and> cls \<le> k \<and> k - cls < n"
  using assms nbit32[of k m]
  by (auto simp: bit_and_iff bit_push_bit_iff bit_BITFIELD_MASK)

lemma radv_alloc_eq:
  "radv_alloc_shader_memory c e dev sz0 ptr =
     (case (if ffs (search_word c dev (align_u32 sz0 (ALLOC_ALIGNMENT c))) \<noteq> 0 then
              (if ffs (search_word c dev (align_u32 sz0 (ALLOC_ALIGNMENT c))) - 1 < length (shader_free_lists dev)
               then find_fit (shader_arenas dev) (align_u32 sz0 (ALLOC_ALIGNMENT c))
                      (shader_free_lists dev ! (ffs (search_word c dev (align_u32 sz0 (ALLOC_ALIGNMENT c))) - 1))
               else None)
            else Some None) of
        None \<Rightarrow> None
      | Some (Some h) \<Rightarrow> alloc_from_hole c e dev (align_u32 sz0 (ALLOC_ALIGNMENT c)) ptr h
      | Some None \<Rightarrow> Some (alloc_new_arena c e dev (align_u32 sz0 (ALLOC_ALIGNMENT c)) ptr))"
  by (simp add: radv_alloc_shader_memory_def search_word_def Let_def)

lemma radv_alloc_cases:
  assumes "radv_alloc_shader_memory c e dev sz0 ptr = Some (r, dev')"
  obtains (hole) k h where
      "ffs (search_word c dev (align_u32 sz0 (ALLOC_ALIGNMENT c))) = Suc k"
      "k < length (shader_free_lists dev)"
      "find_fit (shader_arenas dev) (align_u32 sz0 (ALLOC_ALIGNMENT c)) (shader_free_lists dev ! k) = Some (Some h)"
      "alloc_from_hole c e dev (align_u32 sz0 (ALLOC_ALIGNMENT c)) ptr h = Some (r, dev')"
  | (nofit) k where
      "ffs (search_word c dev (align_u32 sz0 (ALLOC_ALIGNMENT c))) = Suc k"
      "k < length (shader_free_lists dev)"
      "find_fit (shader_arenas dev) (align_u32 sz0 (ALLOC_ALIGNMENT c)) (shader_free_lists dev ! k) = Some None"
      "alloc_new_arena c e dev (align_u32 sz0 (ALLOC_ALIGNMENT c)) ptr = (r, dev')"
  | (empty)
      "ffs (search_word c dev (align_u32 sz0 (ALLOC_ALIGNMENT c))) = 0"
      "alloc_new_arena c e dev (align_u32 sz0 (ALLOC_ALIGNMENT c)) ptr = (r, dev')"
proof (cases "ffs (search_word c dev (align_u32 sz0 (ALLOC_ALIGNMENT c)))")
  case 0
  then show ?thesis using assms empty by (simp add: radv_alloc_eq)
next
  case (Suc k)
  show ?thesis
  proof (cases "k < length (shader_free_lists dev)")
    case False
    then show ?thesis using assms Suc by (simp add: radv_alloc_eq)
  next
    case True
    show ?thesis
    proof (cases "find_fit (shader_arenas dev) (align_u32 sz0 (ALLOC_ALIGNMENT c)) (shader_free_lists dev ! k)")
      case None
      then show ?thesis using assms Suc True by (simp add: radv_alloc_eq)
    next
      case (Some o1)
      show ?thesis
      proof (cases o1)
        case None
        then show ?thesis using assms Suc True Some nofit[of k] by (simp add: radv_alloc_eq)
      next
        case (Some h)
        then show ?thesis using assms Suc True \<open>find_fit _ _ _ = Some o1\<close> hole[of k h]
          by (simp add: radv_alloc_eq)
      qed
    qed
  qed
qed

lemma search_word_bit:
  assumes inv: "dev_inv c dev" and ok: "consts_ok c"
  shows "bit (search_word c dev sz) k \<longleftrightarrow>
    get_size_class c sz True \<le> k \<and> k < ALLOC_NUM_FREE_LISTS c \<and> shader_free_lists dev ! k \<noteq> []"
proof -
  have m: "\<And>k. bit (shader_free_list_mask dev) k \<longleftrightarrow>
      k < ALLOC_NUM_FREE_LISTS c \<and> shader_free_lists dev ! k \<noteq> []"
    using dev_invD(5)[OF inv] by (simp add: mask_ok_def)
  show ?thesis
    unfolding search_word_def bit_search_mask[OF consts_okD(2)[OF ok]] m
    by auto
qed

lemma alloc_from_hole_inv:
  assumes inv: "dev_inv c dev" and ok: "consts_ok c" and env: "env_ok c dev sz0 e"
    and k: "k < ALLOC_NUM_FREE_LISTS c"
    and ff: "find_fit (shader_arenas dev) sz (shader_free_lists dev ! k) = Some (Some h)"
    and dv: "ALLOC_ALIGNMENT c dvd sz"
    and al: "alloc_from_hole c e dev sz ptr h = Some (r, dev')"
  shows "dev_inv c dev'"
proof -
  from find_fit_SomeD[OF ff] obtain l1 l2 apre a apost pre hole post where
    hs: "shader_free_lists dev ! k = l1 @ h # l2"
    and loc: "locate (shader_arenas dev) h = Some (apre, a, apost, pre, hole, post)"
    and ge: "\<not> size_b hole < sz" by blast
  have hin: "h \<in> set (shader_free_lists dev ! k)" using hs by simp
  have lk: "freelist hole = Linked" using listed_hole(2)[OF inv k hin loc] by simp
  show ?thesis
  proof (cases "sz = size_b hole")
    case True
    have "dev' = (remove_hole c dev hole)\<lparr>shader_arenas :=
           apre @ a\<lparr>entries := pre @ hole\<lparr>freelist := Unlinked ptr\<rparr> # post\<rparr> # apost\<rparr>"
      using al unfolding alloc_from_hole_exact[OF loc True] by simp
    then show ?thesis
      using dev_inv_exact[OF inv ok loc, of ptr] by simp
  next
    case False
    then have lt: "sz < size_b hole" using ge by simp
    show ?thesis
    proof (cases "first_obj dev e")
      case None
      have "dev' = dev" using al unfolding alloc_from_hole_nomem[OF loc False None] by simp
      then show ?thesis using inv by simp
    next
      case (Some alloc)
      note d = dev_invD(2)[OF inv]
      have e1: "\<forall>p. env_malloc1 e = Some p \<longrightarrow>
          p \<notin> set (map blk (all_blocks (shader_arenas dev))) \<and> p \<notin> set (shader_block_obj_pool dev)"
        using env by (simp add: env_ok_def)
      note fr = first_obj_fresh[OF d e1 Some]
      have p1: "distinct (tl (shader_block_obj_pool dev))" using d by (simp add: distinct_tl)
      have fr2: "alloc \<notin> blk ` set (all_blocks (shader_arenas dev))" using fr(2) by simp
      have "dev' = (add_hole c (remove_hole c (dev\<lparr>shader_block_obj_pool := tl (shader_block_obj_pool dev)\<rparr>) hole)
             (hole\<lparr>offset := u32 (offset hole + sz), size_b := sub_u32 (size_b hole) sz\<rparr>))
         \<lparr>shader_arenas :=
             apre @ a\<lparr>entries := pre @
               \<lparr>blk = alloc, offset = offset hole, size_b = sz, freelist = Unlinked ptr\<rparr> #
               hole\<lparr>offset := u32 (offset hole + sz), size_b := sub_u32 (size_b hole) sz\<rparr> # post\<rparr> # apost\<rparr>"
        using al unfolding alloc_from_hole_split[OF loc False Some] by simp
      then show ?thesis
        using dev_inv_split[OF inv ok loc lk lt dv p1 set_tl_subset fr(1) fr2, of ptr]
        by simp
    qed
  qed
qed

lemma arena_size_of_pos:
  assumes ok: "consts_ok c"
  shows "0 < arena_size_of c dev sz"
proof -
  let ?s = "min (ALLOC_MAX_ARENA_SIZE_SHIFT c) (shader_arena_shift dev)"
  have "(2::nat) ^ ?s \<le> 2 ^ ALLOC_MAX_ARENA_SIZE_SHIFT c"
    by (rule power_increasing) simp_all
  then have "ALLOC_MIN_ARENA_SIZE c * 2 ^ ?s \<le> ALLOC_MIN_ARENA_SIZE c * 2 ^ ALLOC_MAX_ARENA_SIZE_SHIFT c"
    by (rule mult_le_mono2)
  then have lt: "ALLOC_MIN_ARENA_SIZE c * 2 ^ ?s < 2 ^ 32"
    using consts_okD(7)[OF ok] by (rule le_less_trans)
  have "0 < ALLOC_MIN_ARENA_SIZE c * 2 ^ ?s" using consts_okD(6)[OF ok] by simp
  then have "0 < u32 (ALLOC_MIN_ARENA_SIZE c * 2 ^ ?s)" unfolding u32_id[OF lt] .
  then show ?thesis unfolding arena_size_of_def by (simp add: max_def)
qed


lemma fresh_bo:
  assumes "\<forall>x\<in>set w. bo_disjoint x b" "0 < bo_size b"
  shows "removeAll b (w @ [b]) = w"
proof -
  have "b \<notin> set w"
  proof
    assume "b \<in> set w"
    with assms(1) have "bo_disjoint b b" by blast
    with assms(2) show False by (simp add: bo_disjoint_def)
  qed
  then show ?thesis by simp
qed

lemma dev_inv_pool:
  assumes inv: "dev_inv c dev"
    and pool: "distinct pool'" "set pool' \<subseteq> set (shader_block_obj_pool dev)"
  shows "dev_inv c (dev\<lparr>ws := ws dev, shader_block_obj_pool := pool'\<rparr>)"
  by (rule dev_inv_pool_ws[OF inv pool]) simp

lemma alloc_new_arena_inv:
  assumes inv: "dev_inv c dev" and ok: "consts_ok c" and env: "env_ok c dev sz0 e"
    and sz: "sz = align_u32 sz0 (ALLOC_ALIGNMENT c)"
    and al: "alloc_new_arena c e dev sz ptr = (r, dev')"
  shows "dev_inv c dev'"
proof -
  let ?asz = "arena_size_of c dev sz"
  note d = dev_invD(2)[OF inv]
  have e1: "\<forall>p. env_malloc1 e = Some p \<longrightarrow>
      p \<notin> set (map blk (all_blocks (shader_arenas dev))) \<and> p \<notin> set (shader_block_obj_pool dev)"
    and e2: "\<forall>q. env_malloc2 e = Some q \<longrightarrow>
        q \<notin> set (map blk (all_blocks (shader_arenas dev))) \<and> q \<notin> set (shader_block_obj_pool dev) \<and>
        env_malloc1 e \<noteq> Some q"
    and e3: "\<forall>a. env_calloc e = Some a \<longrightarrow> a \<notin> set (map arena_ptr (shader_arenas dev))"
    and e4: "\<forall>h va. env_buffer_create e = Some (h, va) \<longrightarrow>
        (\<forall>b\<in>set (ws dev). bo_disjoint b \<lparr>bo_handle = h, bo_va = va, bo_size = ?asz\<rparr>)"
    using env unfolding env_ok_def sz by blast+
  have dv: "ALLOC_ALIGNMENT c dvd sz" unfolding sz by (rule align_u32_dvd[OF consts_okD(3)[OF ok]])
  have lt32: "sz < 2 ^ 32" unfolding sz by (rule align_u32_less)
  have dva: "ALLOC_ALIGNMENT c dvd ?asz" by (rule arena_size_of_dvd[OF ok dv])
  have a32: "?asz < 2 ^ 32" by (rule arena_size_of_less[OF lt32])
  have apos: "0 < ?asz" by (rule arena_size_of_pos[OF ok])
  have p1: "distinct (tl (shader_block_obj_pool dev))" using d by (simp add: distinct_tl)
  have p2: "distinct (tl (tl (shader_block_obj_pool dev)))" using p1 by (simp add: distinct_tl)
  have s2: "set (tl (tl (shader_block_obj_pool dev))) \<subseteq> set (shader_block_obj_pool dev)"
    using set_tl_subset[of "tl (shader_block_obj_pool dev)"] set_tl_subset[of "shader_block_obj_pool dev"]
    by blast
  show ?thesis
  proof (cases "env_calloc e")
    case None
    then show ?thesis using al inv by (simp add: alloc_new_arena_fail1)
  next
    case (Some ar)
    have arf: "ar \<notin> set (map arena_ptr (shader_arenas dev))" using e3 Some by blast
    show ?thesis
    proof (cases "env_buffer_create e")
      case None
      then show ?thesis using al inv Some by (simp add: alloc_new_arena_fail1)
    next
      case (Some hv)
      obtain h va where hv: "hv = (h, va)" by (cases hv)
      note cr = Some[unfolded hv]
      let ?b = "\<lparr>bo_handle = h, bo_va = va, bo_size = ?asz\<rparr>"
      have dj: "\<forall>x\<in>set (ws dev). bo_disjoint x ?b" using e4 cr by blast
      have rm: "removeAll ?b (ws dev @ [?b]) = ws dev" by (rule fresh_bo[OF dj]) (simp add: apos)
      show ?thesis
      proof (cases "env_buffer_map e")
        case False
        have "dev' = dev" using al
          unfolding alloc_new_arena_fail2[OF \<open>env_calloc e = Some ar\<close> cr False] rm by simp
        then show ?thesis using inv by simp
      next
        case True
        show ?thesis
        proof (cases "sz < ?asz")
          case big: True
          show ?thesis
          proof (cases "first_obj dev e = None \<or> second_obj dev e = None")
            case True
            have "dev' = dev\<lparr>ws := ws dev, shader_block_obj_pool := tl (tl (shader_block_obj_pool dev))\<rparr>"
              using al unfolding alloc_new_arena_fail3[OF \<open>env_calloc e = Some ar\<close> cr \<open>env_buffer_map e\<close> big True] rm
              by simp
            then show ?thesis using dev_inv_pool[OF inv p2 s2] by simp
          next
            case False
            then obtain alp ho where f: "first_obj dev e = Some alp" and s: "second_obj dev e = Some ho"
              by auto
            note fr = second_obj_fresh[OF d e1 e2 f s]
            have fr': "alp \<notin> blk ` set (all_blocks (shader_arenas dev))"
              "ho \<notin> blk ` set (all_blocks (shader_arenas dev))"
              using first_obj_fresh(2)[OF d e1 f] fr(2) by simp_all
            have "dev' = (add_hole c (dev\<lparr>ws := ws dev @ [?b],
                        shader_block_obj_pool := tl (tl (shader_block_obj_pool dev))\<rparr>)
                 \<lparr>blk = ho, offset = sz, size_b = ?asz - sz, freelist = Linked\<rparr>)
              \<lparr>shader_arena_shift := shader_arena_shift dev + 1,
               shader_arenas := shader_arenas dev @
                 [\<lparr>arena_ptr = ar, bo = ?b,
                   entries = [\<lparr>blk = alp, offset = 0, size_b = sz, freelist = Unlinked ptr\<rparr>,
                      \<lparr>blk = ho, offset = sz, size_b = ?asz - sz, freelist = Linked\<rparr>]\<rparr>]\<rparr>"
              using al unfolding alloc_new_arena_two[OF \<open>env_calloc e = Some ar\<close> cr \<open>env_buffer_map e\<close> big f s fr(3)]
              by simp
            then show ?thesis
              using dev_inv_new2[OF inv ok dv dva big a32 p2 s2 fr(4) fr'(1) fr(1) fr'(2) fr(3) arf dj]
              by simp
          qed
        next
          case small: False
          have eq: "?asz = sz" using small arena_size_of_ge[of sz c dev] by simp
          show ?thesis
          proof (cases "first_obj dev e")
            case None
            have "dev' = dev\<lparr>ws := ws dev, shader_block_obj_pool := tl (shader_block_obj_pool dev)\<rparr>"
              using al unfolding alloc_new_arena_fail4[OF \<open>env_calloc e = Some ar\<close> cr \<open>env_buffer_map e\<close> small None] rm
              by simp
            then show ?thesis using dev_inv_pool[OF inv p1 set_tl_subset] by simp
          next
            case (Some alp)
            note fr = first_obj_fresh[OF d e1 Some]
            have fr': "alp \<notin> blk ` set (all_blocks (shader_arenas dev))" using fr(2) by simp
            have dj': "\<forall>x\<in>set (ws dev). bo_disjoint x \<lparr>bo_handle = h, bo_va = va, bo_size = sz\<rparr>"
              using dj unfolding eq .
            have pos: "0 < sz" using apos unfolding eq .
            have "dev' = dev\<lparr>ws := ws dev @ [\<lparr>bo_handle = h, bo_va = va, bo_size = sz\<rparr>],
                        shader_block_obj_pool := tl (shader_block_obj_pool dev),
               shader_arena_shift := shader_arena_shift dev + 1,
               shader_arenas := shader_arenas dev @
                 [\<lparr>arena_ptr = ar, bo = \<lparr>bo_handle = h, bo_va = va, bo_size = sz\<rparr>,
                   entries = [\<lparr>blk = alp, offset = 0, size_b = sz, freelist = Unlinked ptr\<rparr>]\<rparr>]\<rparr>"
              using al unfolding alloc_new_arena_one[OF \<open>env_calloc e = Some ar\<close> cr \<open>env_buffer_map e\<close> small Some] eq
              by simp
            then show ?thesis
              using dev_inv_new1[OF inv ok dv pos lt32 p1 set_tl_subset fr(1) fr' arf dj']
              by simp
          qed
        qed
      qed
    qed
  qed
qed

lemma dev_inv_alloc:
  assumes inv: "dev_inv c dev" and ok: "consts_ok c" and env: "env_ok c dev sz0 e"
    and al: "radv_alloc_shader_memory c e dev sz0 ptr = Some (r, dev')"
  shows "dev_inv c dev'"
proof -
  let ?sz = "align_u32 sz0 (ALLOC_ALIGNMENT c)"
  have len: "length (shader_free_lists dev) = ALLOC_NUM_FREE_LISTS c"
    using dev_invD(4)[OF inv] by (simp add: lists_ok_def)
  have dv: "ALLOC_ALIGNMENT c dvd ?sz" by (rule align_u32_dvd[OF consts_okD(3)[OF ok]])
  from al show ?thesis
  proof (cases rule: radv_alloc_cases)
    case (hole k h)
    show ?thesis
      by (rule alloc_from_hole_inv[OF inv ok env hole(2)[unfolded len] hole(3) dv hole(4)])
  next
    case (nofit k)
    show ?thesis by (rule alloc_new_arena_inv[OF inv ok env refl nofit(4)])
  next
    case empty
    show ?thesis by (rule alloc_new_arena_inv[OF inv ok env refl empty(2)])
  qed
qed

lemma alloc_from_hole_defined:
  assumes "locate (shader_arenas dev) h = Some (apre, a, apost, pre, hole, post)"
  shows "alloc_from_hole c e dev sz ptr h \<noteq> None"
proof (cases "sz = size_b hole")
  case True
  show ?thesis unfolding alloc_from_hole_exact[OF assms True] by simp
next
  case False
  show ?thesis
  proof (cases "first_obj dev e")
    case None
    show ?thesis unfolding alloc_from_hole_nomem[OF assms False None] by simp
  next
    case (Some alloc)
    show ?thesis unfolding alloc_from_hole_split[OF assms False Some] by simp
  qed
qed

text \<open>From a device that satisfies the invariant the allocation is defined.\<close>

lemma alloc_defined:
  assumes inv: "dev_inv c dev" and ok: "consts_ok c"
  shows "radv_alloc_shader_memory c e dev sz0 ptr \<noteq> None"
proof -
  let ?sz = "align_u32 sz0 (ALLOC_ALIGNMENT c)"
  let ?w = "search_word c dev ?sz"
  have len: "length (shader_free_lists dev) = ALLOC_NUM_FREE_LISTS c"
    using dev_invD(4)[OF inv] by (simp add: lists_ok_def)
  show ?thesis
  proof (cases "ffs ?w")
    case 0
    then show ?thesis by (simp add: radv_alloc_eq)
  next
    case (Suc k)
    then have b: "bit ?w k" by (simp add: ffs_Suc)
    then have k: "k < ALLOC_NUM_FREE_LISTS c" using search_word_bit[OF inv ok] by blast
    have all: "\<forall>h\<in>set (shader_free_lists dev ! k). h \<in> blk ` set (all_blocks (shader_arenas dev))"
      using listed_hole(1)[OF inv k] by blast
    from find_fit_total[OF all, of ?sz] obtain o1 where
      ff: "find_fit (shader_arenas dev) ?sz (shader_free_lists dev ! k) = Some o1" by blast
    show ?thesis
    proof (cases o1)
      case None
      then show ?thesis using Suc k len ff by (simp add: radv_alloc_eq)
    next
      case (Some h)
      from find_fit_SomeD[OF ff[unfolded Some]] obtain apre a apost pre hole post where
        loc: "locate (shader_arenas dev) h = Some (apre, a, apost, pre, hole, post)" by blast
      show ?thesis using Suc k len ff Some alloc_from_hole_defined[OF loc]
        by (simp add: radv_alloc_eq)
    qed
  qed
qed

text \<open>The shift and the buffers of the arenas across an allocation.\<close>

lemma alloc_from_hole_same_arenas:
  assumes "alloc_from_hole c e dev sz ptr h = Some (r, dev')"
  shows "shader_arena_shift dev' = shader_arena_shift dev"
    "map bo (shader_arenas dev') = map bo (shader_arenas dev)"
    "map arena_ptr (shader_arenas dev') = map arena_ptr (shader_arenas dev)"
    "ws dev' = ws dev"
proof -
  from assms obtain apre a apost pre hole post where
    loc: "locate (shader_arenas dev) h = Some (apre, a, apost, pre, hole, post)"
    by (cases "locate (shader_arenas dev) h") (auto simp: alloc_from_hole_def)
  note l = locate_SomeD(1)[OF loc]
  have "shader_arena_shift dev' = shader_arena_shift dev \<and>
    map bo (shader_arenas dev') = map bo (shader_arenas dev) \<and>
    map arena_ptr (shader_arenas dev') = map arena_ptr (shader_arenas dev) \<and> ws dev' = ws dev"
  proof (cases "sz = size_b hole")
    case True
    then show ?thesis using assms l unfolding alloc_from_hole_exact[OF loc True] by auto
  next
    case False
    show ?thesis
    proof (cases "first_obj dev e")
      case None
      then show ?thesis using assms unfolding alloc_from_hole_nomem[OF loc False None] by auto
    next
      case (Some alloc)
      then show ?thesis using assms l unfolding alloc_from_hole_split[OF loc False Some] by auto
    qed
  qed
  then show "shader_arena_shift dev' = shader_arena_shift dev"
    "map bo (shader_arenas dev') = map bo (shader_arenas dev)"
    "map arena_ptr (shader_arenas dev') = map arena_ptr (shader_arenas dev)"
    "ws dev' = ws dev" by simp_all
qed


lemma radv_free_eq:
  assumes "locate (shader_arenas dev) p = Some (apre, a, apost, pre, alloc, post)"
    "freelist alloc \<noteq> Linked"
    "merge_prev c (pre, alloc, dev) = (pre1, hole1, dev1)"
    "merge_next c (post, hole1, dev1) = (post2, hole2, dev2)"
  shows "radv_free_shader_memory c dev p =
     (if pre1 = [] \<and> post2 = [] then
        Some ((buffer_destroy (free_block_obj dev2 (blk hole2)) (bo a))\<lparr>shader_arenas := apre @ apost\<rparr>)
      else
        Some ((add_hole c dev2 hole2)
                \<lparr>shader_arenas :=
                   apre @ a\<lparr>entries := pre1 @ hole2\<lparr>freelist := Linked\<rparr> # post2\<rparr> # apost\<rparr>))"
  using assms
  by (simp add: radv_free_shader_memory_def merge_prev_def merge_next_def Let_def split: option.splits)

lemma get_hole_last_None:
  "get_hole (last_opt pre) = None \<longleftrightarrow> (pre \<noteq> [] \<longrightarrow> freelist (last pre) \<noteq> Linked)"
  by (simp add: get_hole_def last_opt_def)

lemma get_hole_last_Some:
  "get_hole (last_opt pre) = Some hp \<longleftrightarrow> (pre = butlast pre @ [hp] \<and> freelist hp = Linked)"
  by (cases pre rule: rev_cases) (auto simp: get_hole_def last_opt_def)

lemma get_hole_hd_None:
  "get_hole (hd_opt post) = None \<longleftrightarrow> (post \<noteq> [] \<longrightarrow> freelist (hd post) \<noteq> Linked)"
  by (cases post) (simp_all add: get_hole_def hd_opt_def)

lemma get_hole_hd_Some:
  "get_hole (hd_opt post) = Some hn \<longleftrightarrow> (post = hn # tl post \<and> freelist hn = Linked)"
  by (cases post) (auto simp: get_hole_def hd_opt_def)

lemma merge_prev_fields:
  assumes "merge_prev c (pre, hole, dev) = (pre1, hole1, dev1)"
  shows "shader_arenas dev1 = shader_arenas dev" "ws dev1 = ws dev"
    "shader_arena_shift dev1 = shader_arena_shift dev"
  using assms by (auto simp: merge_prev_def split: option.splits)

lemma merge_next_fields:
  assumes "merge_next c (post, hole, dev) = (post2, hole2, dev2)"
  shows "shader_arenas dev2 = shader_arenas dev" "ws dev2 = ws dev"
    "shader_arena_shift dev2 = shader_arena_shift dev"
  using assms by (auto simp: merge_next_def split: option.splits)

lemma pendingD:
  assumes "pending c apre a apost pre hole post dev"
  shows "arena_tiles (a\<lparr>entries := pre @ hole # post\<rparr>)"
    "arena_aligned c (a\<lparr>entries := pre @ hole # post\<rparr>)"
    "no_adjacent_holes pre" "no_adjacent_holes post"
    "lists_ok (ALLOC_NUM_FREE_LISTS c)
       (hole_ptrs c ((all_blocks apre @ pre) @ (post @ all_blocks apost))) (shader_free_lists dev)"
    "mask_ok (ALLOC_NUM_FREE_LISTS c) (shader_free_lists dev) (shader_free_list_mask dev)"
    "distinct (map blk ((all_blocks apre @ pre) @ [hole] @ (post @ all_blocks apost)) @
               shader_block_obj_pool dev)"
  using assms by (simp_all add: pending_def)

lemma pendingI:
  assumes "arena_tiles (a\<lparr>entries := pre @ hole # post\<rparr>)"
    "arena_aligned c (a\<lparr>entries := pre @ hole # post\<rparr>)"
    "no_adjacent_holes pre" "no_adjacent_holes post"
    "lists_ok (ALLOC_NUM_FREE_LISTS c)
       (hole_ptrs c ((all_blocks apre @ pre) @ (post @ all_blocks apost))) (shader_free_lists dev)"
    "mask_ok (ALLOC_NUM_FREE_LISTS c) (shader_free_lists dev) (shader_free_list_mask dev)"
    "distinct (map blk ((all_blocks apre @ pre) @ [hole] @ (post @ all_blocks apost)) @
               shader_block_obj_pool dev)"
  shows "pending c apre a apost pre hole post dev"
  using assms by (simp add: pending_def)

lemma pending_init:
  assumes inv: "dev_inv c dev"
    and loc: "locate (shader_arenas dev) p = Some (apre, a, apost, pre, alloc, post)"
    and nl: "freelist alloc \<noteq> Linked"
  shows "pending c apre a apost pre alloc post dev"
proof (rule pendingI)
  note l = locate_SomeD[OF loc]
  have a_in: "a \<in> set (shader_arenas dev)" using l(1) by simp
  have ai: "arena_inv c a" by (rule dev_invD(1)[OF inv a_in])
  have aeq: "a\<lparr>entries := pre @ alloc # post\<rparr> = a" using l(2) by simp
  show "arena_tiles (a\<lparr>entries := pre @ alloc # post\<rparr>)"
    "arena_aligned c (a\<lparr>entries := pre @ alloc # post\<rparr>)"
    unfolding aeq using ai by (simp_all add: arena_inv_def)
  have "no_adjacent_holes (pre @ alloc # post)" using ai l(2) by (simp add: arena_inv_def arena_coalesced_def)
  then show "no_adjacent_holes pre" "no_adjacent_holes post"
    by (simp_all add: nah_append nah_Cons)
  let ?X = "all_blocks apre @ pre" and ?Y = "post @ all_blocks apost"
  have ab: "all_blocks (shader_arenas dev) = ?X @ [alloc] @ ?Y" using l(1,2) by simp
  show "lists_ok (ALLOC_NUM_FREE_LISTS c) (hole_ptrs c (?X @ ?Y)) (shader_free_lists dev)"
  proof (rule lists_ok_cong)
    show "lists_ok (ALLOC_NUM_FREE_LISTS c) (hole_ptrs c (all_blocks (shader_arenas dev))) (shader_free_lists dev)"
      by (rule dev_invD(4)[OF inv])
    show "hole_ptrs c (all_blocks (shader_arenas dev)) k = hole_ptrs c (?X @ ?Y) k" for k
      unfolding ab using nl by simp
  qed
  show "mask_ok (ALLOC_NUM_FREE_LISTS c) (shader_free_lists dev) (shader_free_list_mask dev)"
    by (rule dev_invD(5)[OF inv])
  show "distinct (map blk (?X @ [alloc] @ ?Y) @ shader_block_obj_pool dev)"
    using dev_invD(2)[OF inv] unfolding ab .
qed

lemma distinct_drop_mid:
  assumes "distinct (map blk (X @ [b] @ Y) @ pool)"
  shows "distinct (map blk (X @ Y))"
  using assms by auto

lemma hole_ptrs_other_class:
  assumes d: "distinct (map blk bs)" and mem: "b \<in> set bs"
    and k: "k \<noteq> get_size_class c (size_b b) False"
  shows "blk b \<notin> hole_ptrs c bs k"
  using hole_ptrs_mem[OF d mem, of c k] k by simp

lemma hole_ptrs_drop:
  assumes "blk b \<notin> blk ` set X" "blk b \<notin> blk ` set Y"
  shows "hole_ptrs c (X @ [b] @ Y) k - {blk b} = hole_ptrs c (X @ Y) k"
proof -
  have 1: "blk ` set [b] \<inter> blk ` set X = {}" "blk ` set [b] \<inter> blk ` set Y = {}"
    using assms by simp_all
  show ?thesis using hole_ptrs_replace[OF 1, of c "[]" k] by simp
qed

lemma merge_arith:
  assumes "arena_tiles (a\<lparr>entries := pre @ x # y # post\<rparr>)"
  shows "u32 (size_b x + size_b y) = size_b x + size_b y"
    "sub_u32 (offset y) (size_b x) = offset x"
proof -
  have t: "offset x = sum_list (map size_b pre)" "offset y = sum_list (map size_b pre) + size_b x"
    "sum_list (map size_b pre) + size_b x + size_b y + sum_list (map size_b post) = bo_size (bo a)"
    "bo_size (bo a) < 2 ^ 32"
    using assms by (simp_all add: arena_tiles_def)
  have "size_b x + size_b y \<le> bo_size (bo a)" using t(3) by arith
  then have "size_b x + size_b y < 2 ^ 32" using t(4) by (rule le_less_trans)
  then show "u32 (size_b x + size_b y) = size_b x + size_b y" by (rule u32_id)
  have "offset y \<le> bo_size (bo a)" using t(2,3) by arith
  then have oy: "offset y < 2 ^ 32" using t(4) by (rule le_less_trans)
  have le: "size_b x \<le> offset y" using t(2) by arith
  have "offset y - size_b x = offset x" using t(1,2) by arith
  then show "sub_u32 (offset y) (size_b x) = offset x" using sub_u32_id[OF le oy] by simp
qed

lemma arena_tiles_merge_l:
  assumes "arena_tiles (a\<lparr>entries := pre @ x # y # post\<rparr>)"
  shows "arena_tiles (a\<lparr>entries := pre @ x\<lparr>size_b := size_b x + size_b y\<rparr> # post\<rparr>)"
  using assms by (simp add: arena_tiles_def add.assoc)

lemma arena_tiles_merge_r:
  assumes "arena_tiles (a\<lparr>entries := pre @ x # y # post\<rparr>)"
  shows "arena_tiles (a\<lparr>entries := pre @ y\<lparr>offset := offset x, size_b := size_b y + size_b x\<rparr> # post\<rparr>)"
proof -
  have e: "sum_list (map size_b pre) + (size_b y + size_b x) = sum_list (map size_b pre) + size_b x + size_b y"
    by arith
  show ?thesis using assms by (simp add: arena_tiles_def e)
qed

lemma arena_aligned_merge:
  assumes "arena_aligned c (a\<lparr>entries := pre @ x # y # post\<rparr>)"
  shows "arena_aligned c (a\<lparr>entries := pre @ x\<lparr>size_b := size_b x + size_b y\<rparr> # post\<rparr>)"
    "arena_aligned c (a\<lparr>entries := pre @ y\<lparr>offset := offset x, size_b := size_b y + size_b x\<rparr> # post\<rparr>)"
  using assms by (simp_all add: arena_aligned_def)

lemma distinct_merge_l:
  assumes "distinct (map blk (X @ [hp] @ ([hole] @ Y)) @ pool)" "blk hp' = blk hp"
  shows "distinct (map blk (X @ [hp'] @ Y) @ (blk hole # pool))"
    "distinct (map blk (X @ [hp] @ Y))"
    "blk hp \<notin> blk ` set X" "blk hp \<notin> blk ` set Y"
  using assms by auto

lemma distinct_merge_r:
  assumes "distinct (map blk (X @ [hole] @ ([hn] @ Y)) @ pool)" "blk hn' = blk hn"
  shows "distinct (map blk (X @ [hn'] @ Y) @ (blk hole # pool))"
    "distinct (map blk (X @ [hn] @ Y))"
    "blk hn \<notin> blk ` set X" "blk hn \<notin> blk ` set Y"
  using assms by auto

lemma pending_merge_prev:
  assumes pd: "pending c apre a apost pre hole post dev" and ok: "consts_ok c"
    and mp: "merge_prev c (pre, hole, dev) = (pre1, hole1, dev1)"
  shows "pending c apre a apost pre1 hole1 post dev1"
    and "pre1 \<noteq> [] \<Longrightarrow> freelist (last pre1) \<noteq> Linked"
proof -
  note p = pendingD[OF pd]
  have "pending c apre a apost pre1 hole1 post dev1 \<and> (pre1 \<noteq> [] \<longrightarrow> freelist (last pre1) \<noteq> Linked)"
  proof (cases "get_hole (last_opt pre)")
    case None
    then have "pre1 = pre" "hole1 = hole" "dev1 = dev" using mp by (simp_all add: merge_prev_def)
    then show ?thesis using pd None by (simp add: get_hole_last_None)
  next
    case (Some hp)
    define pre0 where "pre0 = butlast pre"
    have pre: "pre = pre0 @ [hp]" and lk: "freelist hp = Linked"
      using Some unfolding get_hole_last_Some pre0_def by simp_all
    let ?hp' = "hp\<lparr>size_b := u32 (size_b hp + size_b hole)\<rparr>"
    have r: "pre1 = pre0" "hole1 = ?hp'" "dev1 = free_block_obj (remove_hole c dev hp) (blk hole)"
      using mp Some by (simp_all add: merge_prev_def pre0_def)
    have t: "arena_tiles (a\<lparr>entries := pre0 @ hp # hole # post\<rparr>)" using p(1) pre by simp
    have g: "arena_aligned c (a\<lparr>entries := pre0 @ hp # hole # post\<rparr>)" using p(2) pre by simp
    note ar = merge_arith(1)[OF t]
    let ?X0 = "all_blocks apre @ pre0" and ?Y = "post @ all_blocks apost"
    have d: "distinct (map blk (?X0 @ [hp] @ ([hole] @ ?Y)) @ shader_block_obj_pool dev)"
      using p(7) pre by simp
    have bl: "blk ?hp' = blk hp" by simp
    note dm = distinct_merge_l[OF d bl]
    note d1 = dm(2)
    have lo: "lists_ok (ALLOC_NUM_FREE_LISTS c) (hole_ptrs c (?X0 @ [hp] @ ?Y)) (shader_free_lists dev)"
      using p(5) pre by simp
    have other: "blk hp \<notin> hole_ptrs c (?X0 @ [hp] @ ?Y) k"
      if "k \<noteq> get_size_class c (size_b hp) False" for k
      by (rule hole_ptrs_other_class[OF d1 _ that]) simp
    note rm = remove_hole_fl[OF lo p(6) ok other]
    note nX = dm(3,4)
    have pend: "pending c apre a apost pre0 ?hp' post (free_block_obj (remove_hole c dev hp) (blk hole))"
    proof (rule pendingI)
      show "arena_tiles (a\<lparr>entries := pre0 @ ?hp' # post\<rparr>)"
        unfolding ar by (rule arena_tiles_merge_l[OF t])
      show "arena_aligned c (a\<lparr>entries := pre0 @ ?hp' # post\<rparr>)"
        unfolding ar by (rule arena_aligned_merge(1)[OF g])
      show "no_adjacent_holes pre0" using p(3) pre by (simp add: nah_append)
      show "no_adjacent_holes post" by (rule p(4))
      show "lists_ok (ALLOC_NUM_FREE_LISTS c) (hole_ptrs c ((all_blocks apre @ pre0) @ (post @ all_blocks apost)))
              (shader_free_lists (free_block_obj (remove_hole c dev hp) (blk hole)))"
      proof (rule lists_ok_cong)
        show "lists_ok (ALLOC_NUM_FREE_LISTS c) (\<lambda>k. hole_ptrs c (?X0 @ [hp] @ ?Y) k - {blk hp})
                (shader_free_lists (free_block_obj (remove_hole c dev hp) (blk hole)))"
          using rm(1) by simp
        show "hole_ptrs c (?X0 @ [hp] @ ?Y) k - {blk hp} = hole_ptrs c (?X0 @ ?Y) k" for k
          by (rule hole_ptrs_drop[OF nX])
      qed
      show "mask_ok (ALLOC_NUM_FREE_LISTS c) (shader_free_lists (free_block_obj (remove_hole c dev hp) (blk hole)))
              (shader_free_list_mask (free_block_obj (remove_hole c dev hp) (blk hole)))"
        using rm(2) by simp
      show "distinct (map blk ((all_blocks apre @ pre0) @ [?hp'] @ (post @ all_blocks apost)) @
               shader_block_obj_pool (free_block_obj (remove_hole c dev hp) (blk hole)))"
        using dm(1) by simp
    qed
    have "freelist (last pre0) \<noteq> Linked" if "pre0 \<noteq> []"
      using p(3) that lk unfolding pre by (simp add: nah_append)
    then show ?thesis using pend r by simp
  qed
  then show "pending c apre a apost pre1 hole1 post dev1"
    and "pre1 \<noteq> [] \<Longrightarrow> freelist (last pre1) \<noteq> Linked" by simp_all
qed

lemma pending_merge_next:
  assumes pd: "pending c apre a apost pre hole post dev" and ok: "consts_ok c"
    and mn: "merge_next c (post, hole, dev) = (post2, hole2, dev2)"
  shows "pending c apre a apost pre hole2 post2 dev2"
    and "post2 \<noteq> [] \<Longrightarrow> freelist (hd post2) \<noteq> Linked"
proof -
  note p = pendingD[OF pd]
  have "pending c apre a apost pre hole2 post2 dev2 \<and> (post2 \<noteq> [] \<longrightarrow> freelist (hd post2) \<noteq> Linked)"
  proof (cases "get_hole (hd_opt post)")
    case None
    then have "post2 = post" "hole2 = hole" "dev2 = dev" using mn by (simp_all add: merge_next_def)
    then show ?thesis using pd None by (simp add: get_hole_hd_None)
  next
    case (Some hn)
    define post0 where "post0 = tl post"
    have post: "post = hn # post0" and lk: "freelist hn = Linked"
      using Some unfolding get_hole_hd_Some post0_def by simp_all
    let ?hn' = "hn\<lparr>offset := sub_u32 (offset hn) (size_b hole), size_b := u32 (size_b hn + size_b hole)\<rparr>"
    have r: "post2 = post0" "hole2 = ?hn'" "dev2 = free_block_obj (remove_hole c dev hn) (blk hole)"
      using mn Some by (simp_all add: merge_next_def post0_def)
    have t: "arena_tiles (a\<lparr>entries := pre @ hole # hn # post0\<rparr>)" using p(1) post by simp
    have g: "arena_aligned c (a\<lparr>entries := pre @ hole # hn # post0\<rparr>)" using p(2) post by simp
    have ar: "u32 (size_b hn + size_b hole) = size_b hn + size_b hole"
      "sub_u32 (offset hn) (size_b hole) = offset hole"
      using merge_arith[OF t] by (simp_all add: add.commute)
    let ?X = "all_blocks apre @ pre" and ?Y0 = "post0 @ all_blocks apost"
    have d: "distinct (map blk (?X @ [hole] @ ([hn] @ ?Y0)) @ shader_block_obj_pool dev)"
      using p(7) post by simp
    have bl: "blk ?hn' = blk hn" by simp
    note dm = distinct_merge_r[OF d bl]
    have lo: "lists_ok (ALLOC_NUM_FREE_LISTS c) (hole_ptrs c (?X @ [hn] @ ?Y0)) (shader_free_lists dev)"
      using p(5) post by simp
    have other: "blk hn \<notin> hole_ptrs c (?X @ [hn] @ ?Y0) k"
      if "k \<noteq> get_size_class c (size_b hn) False" for k
      by (rule hole_ptrs_other_class[OF dm(2) _ that]) simp
    note rm = remove_hole_fl[OF lo p(6) ok other]
    have pend: "pending c apre a apost pre ?hn' post0 (free_block_obj (remove_hole c dev hn) (blk hole))"
    proof (rule pendingI)
      show "arena_tiles (a\<lparr>entries := pre @ ?hn' # post0\<rparr>)"
        unfolding ar by (rule arena_tiles_merge_r[OF t])
      show "arena_aligned c (a\<lparr>entries := pre @ ?hn' # post0\<rparr>)"
        unfolding ar by (rule arena_aligned_merge(2)[OF g])
      show "no_adjacent_holes pre" by (rule p(3))
      show "no_adjacent_holes post0" using p(4) post by (simp add: nah_Cons)
      show "lists_ok (ALLOC_NUM_FREE_LISTS c) (hole_ptrs c ((all_blocks apre @ pre) @ (post0 @ all_blocks apost)))
              (shader_free_lists (free_block_obj (remove_hole c dev hn) (blk hole)))"
      proof (rule lists_ok_cong)
        show "lists_ok (ALLOC_NUM_FREE_LISTS c) (\<lambda>k. hole_ptrs c (?X @ [hn] @ ?Y0) k - {blk hn})
                (shader_free_lists (free_block_obj (remove_hole c dev hn) (blk hole)))"
          using rm(1) by simp
        show "hole_ptrs c (?X @ [hn] @ ?Y0) k - {blk hn} = hole_ptrs c (?X @ ?Y0) k" for k
          by (rule hole_ptrs_drop[OF dm(3,4)])
      qed
      show "mask_ok (ALLOC_NUM_FREE_LISTS c) (shader_free_lists (free_block_obj (remove_hole c dev hn) (blk hole)))
              (shader_free_list_mask (free_block_obj (remove_hole c dev hn) (blk hole)))"
        using rm(2) by simp
      show "distinct (map blk ((all_blocks apre @ pre) @ [?hn'] @ (post0 @ all_blocks apost)) @
               shader_block_obj_pool (free_block_obj (remove_hole c dev hn) (blk hole)))"
        using dm(1) by simp
    qed
    have "freelist (hd post0) \<noteq> Linked" if "post0 \<noteq> []"
      using p(4) that lk unfolding post by (simp add: nah_Cons)
    then show ?thesis using pend r by simp
  qed
  then show "pending c apre a apost pre hole2 post2 dev2"
    and "post2 \<noteq> [] \<Longrightarrow> freelist (hd post2) \<noteq> Linked" by simp_all
qed

lemma bo_disjoint_neq:
  assumes "bo_disjoint b b'" "0 < bo_size b"
  shows "b \<noteq> b'"
  using assms by (auto simp: bo_disjoint_def)

lemma pairwise_disjoint_mid:
  assumes "pairwise_disjoint (map bo (apre @ a # apost))"
  shows "pairwise_disjoint (map bo (apre @ apost))"
    "\<forall>x\<in>set (apre @ apost). bo_disjoint (bo x) (bo a)"
  using assms by (auto simp: pairwise_disjoint_append bo_disjoint_sym[of "bo a"])

lemma pending_finish_keep:
  assumes pd: "pending c apre a apost pre1 hole2 post2 dev2" and ok: "consts_ok c"
    and nl: "pre1 \<noteq> [] \<Longrightarrow> freelist (last pre1) \<noteq> Linked"
    and nr: "post2 \<noteq> [] \<Longrightarrow> freelist (hd post2) \<noteq> Linked"
    and ns: "\<not> (pre1 = [] \<and> post2 = [])"
    and f1: "\<And>x. x \<in> set (apre @ apost) \<Longrightarrow> arena_inv c x"
    and f2: "distinct (map arena_ptr (apre @ a # apost))"
    and f3: "\<And>x. x \<in> set (apre @ a # apost) \<Longrightarrow> bo x \<in> set (ws dev2)"
    and f4: "pairwise_disjoint (map bo (apre @ a # apost))"
  shows "dev_inv c ((add_hole c dev2 hole2)
           \<lparr>shader_arenas := apre @ a\<lparr>entries := pre1 @ hole2\<lparr>freelist := Linked\<rparr> # post2\<rparr> # apost\<rparr>)"
    (is "dev_inv c ?dev'")
proof (rule dev_invI)
  note p = pendingD[OF pd]
  let ?h' = "hole2\<lparr>freelist := Linked\<rparr>"
  let ?a' = "a\<lparr>entries := pre1 @ ?h' # post2\<rparr>"
  let ?X = "all_blocks apre @ pre1" and ?Y = "post2 @ all_blocks apost"
  let ?H = "hole_ptrs c (?X @ ?Y)"
  let ?n = "ALLOC_NUM_FREE_LISTS c"
  let ?cls = "get_size_class c (size_b hole2) False"
  have t: "arena_tiles ?a'" using p(1) by (simp add: arena_tiles_def)
  have g: "arena_aligned c ?a'" using p(2) by (simp add: arena_aligned_def)
  have ex: "\<exists>b\<in>set (pre1 @ ?h' # post2). freelist b \<noteq> Linked"
  proof (cases "pre1 = []")
    case False
    then have "last pre1 \<in> set pre1" by simp
    then show ?thesis using nl[OF False] by auto
  next
    case True
    then have ne: "post2 \<noteq> []" using ns by simp
    then have "hd post2 \<in> set post2" by simp
    then show ?thesis using nr[OF ne] by auto
  qed
  have co: "arena_coalesced ?a'"
    using p(3,4) nl nr ex by (simp add: arena_coalesced_def nah_append nah_Cons)
  have ainv: "arena_inv c ?a'" using t g co by (simp add: arena_inv_def)
  show "arena_inv c x" if "x \<in> set (shader_arenas ?dev')" for x
    using that f1 ainv by auto
  have ab': "all_blocks (shader_arenas ?dev') = ?X @ [?h'] @ ?Y" by simp
  show "distinct (map blk (all_blocks (shader_arenas ?dev')) @ shader_block_obj_pool ?dev')"
    unfolding ab' using p(7) by simp
  show "distinct (map arena_ptr (shader_arenas ?dev'))" using f2 by simp
  have nX: "blk hole2 \<notin> blk ` set (?X @ ?Y)" using p(7) by auto
  have new: "blk hole2 \<notin> ?H ?cls" by (rule hole_ptrs_notin[OF nX])
  note ad = add_hole_fl[OF p(5,6) ok new]
  show "lists_ok ?n (hole_ptrs c (all_blocks (shader_arenas ?dev'))) (shader_free_lists ?dev')"
  proof (rule lists_ok_cong)
    show "lists_ok ?n (\<lambda>k. if k = ?cls then insert (blk hole2) (?H k) else ?H k) (shader_free_lists ?dev')"
      using ad(1) by simp
    show "(if k = ?cls then insert (blk hole2) (?H k) else ?H k) =
          hole_ptrs c (all_blocks (shader_arenas ?dev')) k" for k
      unfolding ab' by auto
  qed
  show "mask_ok ?n (shader_free_lists ?dev') (shader_free_list_mask ?dev')" using ad(2) by simp
  show "bo x \<in> set (ws ?dev')" if "x \<in> set (shader_arenas ?dev')" for x
    using that f3 by auto
  show "pairwise_disjoint (map bo (shader_arenas ?dev'))" using f4 by simp
qed

lemma pending_finish_destroy:
  assumes pd: "pending c apre a apost [] hole2 [] dev2" and ok: "consts_ok c"
    and f1: "\<And>x. x \<in> set (apre @ apost) \<Longrightarrow> arena_inv c x"
    and f2: "distinct (map arena_ptr (apre @ a # apost))"
    and f3: "\<And>x. x \<in> set (apre @ a # apost) \<Longrightarrow> bo x \<in> set (ws dev2)"
    and f4: "pairwise_disjoint (map bo (apre @ a # apost))"
  shows "dev_inv c ((buffer_destroy (free_block_obj dev2 (blk hole2)) (bo a))
           \<lparr>shader_arenas := apre @ apost\<rparr>)"
    (is "dev_inv c ?dev'")
proof (rule dev_invI)
  note p = pendingD[OF pd]
  show "arena_inv c x" if "x \<in> set (shader_arenas ?dev')" for x
    using that f1 by simp
  show "distinct (map blk (all_blocks (shader_arenas ?dev')) @ shader_block_obj_pool ?dev')"
    using p(7) by auto
  show "distinct (map arena_ptr (shader_arenas ?dev'))" using f2 by simp
  show "lists_ok (ALLOC_NUM_FREE_LISTS c) (hole_ptrs c (all_blocks (shader_arenas ?dev')))
          (shader_free_lists ?dev')"
    using p(5) by simp
  show "mask_ok (ALLOC_NUM_FREE_LISTS c) (shader_free_lists ?dev') (shader_free_list_mask ?dev')"
    using p(6) by simp
  note pm = pairwise_disjoint_mid[OF f4]
  show "bo x \<in> set (ws ?dev')" if "x \<in> set (shader_arenas ?dev')" for x
  proof -
    have x: "x \<in> set (apre @ apost)" using that by simp
    have "0 < bo_size (bo x)" using f1[OF x] by (simp add: arena_inv_def arena_tiles_def)
    then have "bo x \<noteq> bo a" using pm(2) x bo_disjoint_neq by blast
    moreover have "bo x \<in> set (ws dev2)" using f3 x by auto
    ultimately show ?thesis by simp
  qed
  show "pairwise_disjoint (map bo (shader_arenas ?dev'))" using pm(1) by simp
qed

lemma dev_inv_free:
  assumes inv: "dev_inv c dev" and ok: "consts_ok c"
    and fr: "radv_free_shader_memory c dev p = Some dev'"
  shows "dev_inv c dev'"
proof -
  from fr obtain apre a apost pre alloc post where
    loc: "locate (shader_arenas dev) p = Some (apre, a, apost, pre, alloc, post)"
    by (cases "locate (shader_arenas dev) p") (auto simp: radv_free_shader_memory_def)
  have nl: "freelist alloc \<noteq> Linked"
    using fr loc by (auto simp: radv_free_shader_memory_def split: if_splits)
  obtain pre1 hole1 dev1 where mp: "merge_prev c (pre, alloc, dev) = (pre1, hole1, dev1)"
    by (cases "merge_prev c (pre, alloc, dev)")
  obtain post2 hole2 dev2 where mn: "merge_next c (post, hole1, dev1) = (post2, hole2, dev2)"
    by (cases "merge_next c (post, hole1, dev1)")
  note eq = radv_free_eq[OF loc nl mp mn]
  note l = locate_SomeD[OF loc]
  note p0 = pending_init[OF inv loc nl]
  note p1 = pending_merge_prev[OF p0 ok mp]
  note p2 = pending_merge_next[OF p1(1) ok mn]
  have w: "ws dev2 = ws dev" using merge_prev_fields(2)[OF mp] merge_next_fields(2)[OF mn] by simp
  have f1: "\<And>x. x \<in> set (apre @ apost) \<Longrightarrow> arena_inv c x"
    using dev_invD(1)[OF inv] l(1) by auto
  have f2: "distinct (map arena_ptr (apre @ a # apost))" using dev_invD(3)[OF inv] l(1) by simp
  have f3: "\<And>x. x \<in> set (apre @ a # apost) \<Longrightarrow> bo x \<in> set (ws dev2)"
    using dev_invD(6)[OF inv] l(1) w by auto
  have f4: "pairwise_disjoint (map bo (apre @ a # apost))" using dev_invD(7)[OF inv] l(1) by simp
  show ?thesis
  proof (cases "pre1 = [] \<and> post2 = []")
    case True
    have pd: "pending c apre a apost [] hole2 [] dev2" using p2(1) True by simp
    have "dev' = (buffer_destroy (free_block_obj dev2 (blk hole2)) (bo a))\<lparr>shader_arenas := apre @ apost\<rparr>"
      using fr True unfolding eq by simp
    then show ?thesis using pending_finish_destroy[OF pd ok f1 f2 f3 f4] by simp
  next
    case False
    have "dev' = (add_hole c dev2 hole2)
           \<lparr>shader_arenas := apre @ a\<lparr>entries := pre1 @ hole2\<lparr>freelist := Linked\<rparr> # post2\<rparr> # apost\<rparr>"
      using fr False unfolding eq by auto
    then show ?thesis using pending_finish_keep[OF p2(1) ok p1(2) p2(2) False f1 f2 f3 f4] by simp
  qed
qed

lemma free_defined:
  assumes "locate (shader_arenas dev) p = Some (apre, a, apost, pre, alloc, post)"
    "freelist alloc \<noteq> Linked"
  shows "radv_free_shader_memory c dev p \<noteq> None"
  using assms by (simp add: radv_free_shader_memory_def Let_def split: prod.splits)

lemma dev_inv_init:
  "dev_inv c (radv_init_shader_arenas c dev0)"
proof (rule dev_invI)
  let ?d = "radv_init_shader_arenas c dev0"
  have f: "shader_arenas ?d = []" "shader_block_obj_pool ?d = []"
    "shader_free_lists ?d = replicate (ALLOC_NUM_FREE_LISTS c) []" "shader_free_list_mask ?d = 0"
    by (simp_all add: radv_init_shader_arenas_def)
  show "arena_inv c x" if "x \<in> set (shader_arenas ?d)" for x using that f by simp
  show "distinct (map blk (all_blocks (shader_arenas ?d)) @ shader_block_obj_pool ?d)"
    using f by simp
  show "distinct (map arena_ptr (shader_arenas ?d))" using f by simp
  show "lists_ok (ALLOC_NUM_FREE_LISTS c) (hole_ptrs c (all_blocks (shader_arenas ?d))) (shader_free_lists ?d)"
    unfolding f by (simp add: lists_ok_def)
  show "mask_ok (ALLOC_NUM_FREE_LISTS c) (shader_free_lists ?d) (shader_free_list_mask ?d)"
    unfolding f by (simp add: mask_ok_def)
  show "bo x \<in> set (ws ?d)" if "x \<in> set (shader_arenas ?d)" for x using that f by simp
  show "pairwise_disjoint (map bo (shader_arenas ?d))" using f by simp
qed

lemma reachable_inv:
  assumes ok: "consts_ok c" and r: "reachable c dev"
  shows "dev_inv c dev"
  using r
proof (induction rule: reachable.induct)
  case (reach_init dev0)
  show ?case by (rule dev_inv_init)
next
  case (reach_alloc dev sz0 e ptr r dev')
  show ?case by (rule dev_inv_alloc[OF reach_alloc.IH ok reach_alloc.hyps(2,3)])
next
  case (reach_free dev p dev')
  show ?case by (rule dev_inv_free[OF reach_free.IH ok reach_free.hyps(2)])
qed

text \<open>The tiling in the words of the specification.\<close>

lemma offsets_ok_nth:
  "offsets_ok s es \<Longrightarrow> Suc i < length es \<Longrightarrow> offset (es ! i) + size_b (es ! i) = offset (es ! Suc i)"
proof (induction es arbitrary: s i)
  case Nil
  then show ?case by simp
next
  case (Cons b bs)
  show ?case
  proof (cases i)
    case 0
    then show ?thesis using Cons.prems by (cases bs) simp_all
  next
    case (Suc j)
    then show ?thesis using Cons.prems Cons.IH[of "s + size_b b" j] by simp
  qed
qed

lemma offsets_ok_last:
  "offsets_ok s es \<Longrightarrow> es \<noteq> [] \<Longrightarrow> offset (last es) + size_b (last es) = s + sum_list (map size_b es)"
proof (induction es arbitrary: s)
  case Nil
  then show ?case by simp
next
  case (Cons b bs)
  show ?case
  proof (cases "bs = []")
    case True
    then show ?thesis using Cons.prems by simp
  next
    case False
    then show ?thesis using Cons.prems Cons.IH[of "s + size_b b"] by (simp add: add.assoc)
  qed
qed

lemma arena_inv_tiling:
  assumes "arena_inv c a"
  shows "tiling a"
proof -
  have t: "offsets_ok 0 (entries a)" "sum_list (map size_b (entries a)) = bo_size (bo a)"
    and ex: "\<exists>b\<in>set (entries a). freelist b \<noteq> Linked"
    using assms by (simp_all add: arena_inv_def arena_tiles_def arena_coalesced_def)
  have ne: "entries a \<noteq> []" using ex by auto
  have hd0: "offset (hd (entries a)) = 0" using t(1) ne by (cases "entries a") simp_all
  show ?thesis
    unfolding tiling_def
    using ne hd0 offsets_ok_nth[OF t(1)] offsets_ok_last[OF t(1) ne] t(2) by simp
qed

lemma consts_ok_radv: "consts_ok radv_consts"
  by (simp add: consts_ok_def radv_consts_def)

lemma radv_consts_simps [simp]:
  "ALLOC_ALIGNMENT radv_consts = 256" "ALLOC_MIN_ARENA_SIZE radv_consts = 262144"
  "ALLOC_MAX_ARENA_SIZE_SHIFT radv_consts = 5" "ALLOC_MIN_SIZE_CLASS radv_consts = 8"
  "ALLOC_NUM_FREE_LISTS radv_consts = 8"
  by (simp_all add: radv_consts_def)

lemma init_empty: "radv_init_shader_arenas radv_consts empty_dev = empty_dev"
  by (simp add: radv_init_shader_arenas_def empty_dev_def numeral_eq_Suc)

lemma ulog_simps:
  "util_logbase2 0 = 0" "util_logbase2 (Suc 0) = 0" "util_logbase2 1 = 0"
  "util_logbase2 (numeral (Num.Bit0 n)) = Suc (util_logbase2 (numeral n))"
  "util_logbase2 (numeral (Num.Bit1 n)) = Suc (util_logbase2 (numeral n))"
proof -
  show "util_logbase2 0 = 0" by (simp add: util_logbase2.simps[of 0])
  show s: "util_logbase2 (Suc 0) = 0" by (simp add: util_logbase2.simps[of "Suc 0"])
  then show "util_logbase2 1 = 0" by simp
  have "(numeral (Num.Bit0 n) :: nat) div 2 = numeral n" by simp
  then show "util_logbase2 (numeral (Num.Bit0 n)) = Suc (util_logbase2 (numeral n))"
    by (subst util_logbase2.simps) simp
  have "(numeral (Num.Bit1 n) :: nat) div 2 = numeral n" by simp
  then show "util_logbase2 (numeral (Num.Bit1 n)) = Suc (util_logbase2 (numeral n))"
    by (subst util_logbase2.simps) simp
qed

lemma class_ex:
  "get_size_class radv_consts 256 True = 0"
  "get_size_class radv_consts 512 True = 1"
  "get_size_class radv_consts 300032 True = 7"
  "get_size_class radv_consts 256 False = 0"
  "get_size_class radv_consts 261888 False = 7"
  "get_size_class radv_consts 261376 False = 7"
  by (simp_all add: get_size_class_def util_logbase2_ceil_def ulog_simps)

lemma align_ex:
  "align_u32 100 256 = 256" "align_u32 512 256 = 512" "align_u32 300000 256 = 300032"
  "align_u32 4294967295 256 = 0"
  by (simp_all add: align_u32_def u32_def)

lemma ffs_0: "ffs 0 = 0"
  by (simp add: ffs_zero)

lemma search_empty: "search_word radv_consts empty_dev sz = 0"
  by (simp add: search_word_def empty_dev_def)

lemma asz_ex: "arena_size_of radv_consts empty_dev 256 = 262144"
  "arena_size_of radv_consts ex_dev1 300032 = 524288"
  by (simp_all add: arena_size_of_def u32_def empty_dev_def ex_dev1_def)

lemma objs_ex1: "first_obj empty_dev ex_env1 = Some 1" "second_obj empty_dev ex_env1 = Some 2"
  by (simp_all add: first_obj_eq second_obj_eq empty_dev_def ex_env1_def)

lemma new_ex1: "alloc_new_arena radv_consts ex_env1 empty_dev 256 7 = (Some 1, ex_dev1)"
proof -
  have e: "env_calloc ex_env1 = Some 1000" "env_buffer_create ex_env1 = Some (50, 4096)" "env_buffer_map ex_env1"
    by (simp_all add: ex_env1_def)
  have lt: "256 < arena_size_of radv_consts empty_dev 256" by (simp add: asz_ex)
  have ne: "(2::nat) \<noteq> 1" by simp
  show ?thesis
    unfolding alloc_new_arena_two[OF e lt objs_ex1 ne] asz_ex
    by (simp add: add_hole_def class_ex empty_dev_def ex_dev1_def ex_bo1_def)
qed

lemma alloc_ex1: "radv_alloc_shader_memory radv_consts ex_env1 empty_dev 100 7 = Some (Some 1, ex_dev1)"
  by (simp add: radv_alloc_eq align_ex search_empty ffs_0 new_ex1)

lemma env_ok_ex1: "env_ok radv_consts empty_dev 100 ex_env1"
  by (simp add: env_ok_def empty_dev_def ex_env1_def)

lemma reachable_empty: "reachable radv_consts empty_dev"
  using reach_init[of radv_consts empty_dev] by (simp add: init_empty)

lemma reachable_dev1: "reachable radv_consts ex_dev1"
  by (rule reach_alloc[OF reachable_empty env_ok_ex1 alloc_ex1])

lemma locate_ex1:
  "locate (shader_arenas ex_dev1) 1 =
     Some ([], hd (shader_arenas ex_dev1), [], [], \<lparr>blk = 1, offset = 0, size_b = 256, freelist = Unlinked 7\<rparr>,
           [\<lparr>blk = 2, offset = 256, size_b = 261888, freelist = Linked\<rparr>])"
  "locate (shader_arenas ex_dev1) 2 =
     Some ([], hd (shader_arenas ex_dev1), [], [\<lparr>blk = 1, offset = 0, size_b = 256, freelist = Unlinked 7\<rparr>],
           \<lparr>blk = 2, offset = 256, size_b = 261888, freelist = Linked\<rparr>, [])"
  by (simp_all add: locate_def block_ptrs_def ex_dev1_def)

lemma free_ex1: "radv_free_shader_memory radv_consts ex_dev1 1 = Some ex_dev1_freed"
proof -
  let ?hole2 = "\<lparr>blk = 2, offset = 0, size_b = 262144, freelist = Linked\<rparr>"
  let ?d2 = "free_block_obj (remove_hole radv_consts ex_dev1
                \<lparr>blk = 2, offset = 256, size_b = 261888, freelist = Linked\<rparr>) 1"
  have nl: "freelist \<lparr>blk = 1, offset = 0, size_b = 256, freelist = Unlinked 7\<rparr> \<noteq> Linked" by simp
  have mp: "merge_prev radv_consts ([], \<lparr>blk = 1, offset = 0, size_b = 256, freelist = Unlinked 7\<rparr>, ex_dev1)
      = ([], \<lparr>blk = 1, offset = 0, size_b = 256, freelist = Unlinked 7\<rparr>, ex_dev1)"
    by (simp add: merge_prev_def get_hole_def last_opt_def)
  have mn: "merge_next radv_consts ([\<lparr>blk = 2, offset = 256, size_b = 261888, freelist = Linked\<rparr>],
        \<lparr>blk = 1, offset = 0, size_b = 256, freelist = Unlinked 7\<rparr>, ex_dev1) = ([], ?hole2, ?d2)"
    by (simp add: merge_next_def get_hole_def hd_opt_def u32_def sub_u32_def)
  show ?thesis
    unfolding radv_free_eq[OF locate_ex1(1) nl mp mn]
    by (simp add: buffer_destroy_def free_block_obj_def remove_hole_def class_ex ex_dev1_def
        ex_dev1_freed_def ex_bo1_def)
qed

lemma upt32: "[0..<32] = [0,1,2,3,4,5,6,7,8,9,10,11,12,13,14,15,16,17,18,19,20,21,22,23,24,25,26,27,28,29,30,31]"
  by (simp add: upt_rec numeral_eq_Suc)

lemma ffs_ex: "ffs 128 = 8" "ffs 129 = 1"
  by (simp_all add: ffs_def upt32 bit_numeral_word_iff)

lemma bfm8: "BITFIELD_MASK 8 = 255"
  by (simp add: BITFIELD_MASK_def)

lemma search_ex1:
  "search_word radv_consts ex_dev1 512 = 128" "search_word radv_consts ex_dev1 300032 = 128"
  "search_word radv_consts ex_dev4 300032 = 128"
  by (simp_all add: search_word_def class_ex ex_dev1_def ex_dev4_def bfm8)

lemma find_fit_ex1:
  "find_fit (shader_arenas ex_dev1) 512 [2] = Some (Some 2)"
  "find_fit (shader_arenas ex_dev1) 300032 [2] = Some None"
  by (simp_all add: locate_ex1)

lemma radv_alloc_hole_path:
  assumes "ffs (search_word c dev (align_u32 sz0 (ALLOC_ALIGNMENT c))) = Suc k"
    "k < length (shader_free_lists dev)"
    "find_fit (shader_arenas dev) (align_u32 sz0 (ALLOC_ALIGNMENT c)) (shader_free_lists dev ! k) = Some (Some h)"
  shows "radv_alloc_shader_memory c e dev sz0 ptr =
         alloc_from_hole c e dev (align_u32 sz0 (ALLOC_ALIGNMENT c)) ptr h"
  unfolding radv_alloc_eq using assms by simp

lemma radv_alloc_nofit_path:
  assumes "ffs (search_word c dev (align_u32 sz0 (ALLOC_ALIGNMENT c))) = Suc k"
    "k < length (shader_free_lists dev)"
    "find_fit (shader_arenas dev) (align_u32 sz0 (ALLOC_ALIGNMENT c)) (shader_free_lists dev ! k) = Some None"
  shows "radv_alloc_shader_memory c e dev sz0 ptr =
         Some (alloc_new_arena c e dev (align_u32 sz0 (ALLOC_ALIGNMENT c)) ptr)"
  unfolding radv_alloc_eq using assms by simp

lemma radv_alloc_empty_path:
  assumes "ffs (search_word c dev (align_u32 sz0 (ALLOC_ALIGNMENT c))) = 0"
  shows "radv_alloc_shader_memory c e dev sz0 ptr =
         Some (alloc_new_arena c e dev (align_u32 sz0 (ALLOC_ALIGNMENT c)) ptr)"
  unfolding radv_alloc_eq using assms by simp

lemma alloc_ex2: "radv_alloc_shader_memory radv_consts ex_env2 ex_dev1 512 8 = Some (Some 3, ex_dev2)"
proof -
  have f: "first_obj ex_dev1 ex_env2 = Some 3"
    by (simp add: first_obj_eq ex_dev1_def ex_env2_def)
  have ne: "512 \<noteq> size_b \<lparr>blk = 2, offset = 256, size_b = 261888, freelist = Linked\<rparr>" by simp
  have sz: "align_u32 512 (ALLOC_ALIGNMENT radv_consts) = 512" by (simp add: align_ex)
  have 1: "ffs (search_word radv_consts ex_dev1 (align_u32 512 (ALLOC_ALIGNMENT radv_consts))) = Suc 7"
    unfolding sz by (simp add: search_ex1 ffs_ex)
  have 2: "7 < length (shader_free_lists ex_dev1)" by (simp add: ex_dev1_def)
  have 3: "find_fit (shader_arenas ex_dev1) (align_u32 512 (ALLOC_ALIGNMENT radv_consts))
             (shader_free_lists ex_dev1 ! 7) = Some (Some 2)"
    unfolding sz using find_fit_ex1(1) by (simp add: ex_dev1_def)
  show ?thesis
    unfolding radv_alloc_hole_path[OF 1 2 3] sz alloc_from_hole_split[OF locate_ex1(2) ne f]
    by (simp add: add_hole_def remove_hole_def class_ex u32_def sub_u32_def ex_dev1_def ex_dev2_def)
qed

lemma locate_ex2:
  "locate (shader_arenas ex_dev2) 1 =
     Some ([], hd (shader_arenas ex_dev2), [], [], \<lparr>blk = 1, offset = 0, size_b = 256, freelist = Unlinked 7\<rparr>,
           [\<lparr>blk = 3, offset = 256, size_b = 512, freelist = Unlinked 8\<rparr>,
            \<lparr>blk = 2, offset = 768, size_b = 261376, freelist = Linked\<rparr>])"
  "locate (shader_arenas ex_dev2) 3 =
     Some ([], hd (shader_arenas ex_dev2), [], [\<lparr>blk = 1, offset = 0, size_b = 256, freelist = Unlinked 7\<rparr>],
           \<lparr>blk = 3, offset = 256, size_b = 512, freelist = Unlinked 8\<rparr>,
           [\<lparr>blk = 2, offset = 768, size_b = 261376, freelist = Linked\<rparr>])"
  by (simp_all add: locate_def block_ptrs_def ex_dev2_def)

lemma free_ex2: "radv_free_shader_memory radv_consts ex_dev2 1 = Some ex_dev3"
proof -
  let ?b1 = "\<lparr>blk = 1, offset = 0, size_b = 256, freelist = Unlinked 7\<rparr>"
  let ?post = "[\<lparr>blk = 3, offset = 256, size_b = 512, freelist = Unlinked 8\<rparr>,
            \<lparr>blk = 2, offset = 768, size_b = 261376, freelist = Linked\<rparr>]"
  have nl: "freelist ?b1 \<noteq> Linked" by simp
  have mp: "merge_prev radv_consts ([], ?b1, ex_dev2) = ([], ?b1, ex_dev2)"
    by (simp add: merge_prev_def get_hole_def last_opt_def)
  have mn: "merge_next radv_consts (?post, ?b1, ex_dev2) = (?post, ?b1, ex_dev2)"
    by (simp add: merge_next_def get_hole_def hd_opt_def)
  show ?thesis
    unfolding radv_free_eq[OF locate_ex2(1) nl mp mn]
    by (simp add: add_hole_def class_ex ex_dev2_def ex_dev3_def)
qed

lemma free_ex3: "radv_free_shader_memory radv_consts ex_dev2 3 = Some ex_dev4"
proof -
  let ?b1 = "\<lparr>blk = 1, offset = 0, size_b = 256, freelist = Unlinked 7\<rparr>"
  let ?b3 = "\<lparr>blk = 3, offset = 256, size_b = 512, freelist = Unlinked 8\<rparr>"
  let ?b2 = "\<lparr>blk = 2, offset = 768, size_b = 261376, freelist = Linked\<rparr>"
  let ?h2 = "\<lparr>blk = 2, offset = 256, size_b = 261888, freelist = Linked\<rparr>"
  have nl: "freelist ?b3 \<noteq> Linked" by simp
  have mp: "merge_prev radv_consts ([?b1], ?b3, ex_dev2) = ([?b1], ?b3, ex_dev2)"
    by (simp add: merge_prev_def get_hole_def last_opt_def)
  have mn: "merge_next radv_consts ([?b2], ?b3, ex_dev2) =
      ([], ?h2, free_block_obj (remove_hole radv_consts ex_dev2 ?b2) 3)"
    by (simp add: merge_next_def get_hole_def hd_opt_def u32_def sub_u32_def)
  show ?thesis
    unfolding radv_free_eq[OF locate_ex2(2) nl mp mn]
    by (simp add: add_hole_def remove_hole_def free_block_obj_def class_ex ex_dev2_def ex_dev4_def)
qed

lemma alloc_ex3: "radv_alloc_shader_memory radv_consts ex_env3 ex_dev1 300000 9 = Some (Some 3, ex_dev5)"
proof -
  have sz: "align_u32 300000 (ALLOC_ALIGNMENT radv_consts) = 300032" by (simp add: align_ex)
  have 1: "ffs (search_word radv_consts ex_dev1 (align_u32 300000 (ALLOC_ALIGNMENT radv_consts))) = Suc 7"
    unfolding sz by (simp add: search_ex1 ffs_ex)
  have 2: "7 < length (shader_free_lists ex_dev1)" by (simp add: ex_dev1_def)
  have 3: "find_fit (shader_arenas ex_dev1) (align_u32 300000 (ALLOC_ALIGNMENT radv_consts))
             (shader_free_lists ex_dev1 ! 7) = Some None"
    unfolding sz using find_fit_ex1(2) by (simp add: ex_dev1_def)
  have e: "env_calloc ex_env3 = Some 2000" "env_buffer_create ex_env3 = Some (51, 1048576)"
    "env_buffer_map ex_env3"
    by (simp_all add: ex_env3_def)
  have lt: "300032 < arena_size_of radv_consts ex_dev1 300032" by (simp add: asz_ex)
  have o: "first_obj ex_dev1 ex_env3 = Some 3" "second_obj ex_dev1 ex_env3 = Some 4"
    by (simp_all add: first_obj_eq second_obj_eq ex_dev1_def ex_env3_def)
  have ne: "(4::nat) \<noteq> 3" by simp
  have c: "get_size_class radv_consts 224256 False = 7"
    by (simp add: get_size_class_def ulog_simps)
  show ?thesis
    unfolding radv_alloc_nofit_path[OF 1 2 3] sz alloc_new_arena_two[OF e lt o ne] asz_ex
    by (simp add: add_hole_def c ex_dev1_def ex_dev5_def ex_bo2_def)
qed

lemma alloc_ex4: "radv_alloc_shader_memory radv_consts ex_env4 ex_dev4 300000 9 = Some (None, ex_dev1)"
proof -
  have sz: "align_u32 300000 (ALLOC_ALIGNMENT radv_consts) = 300032" by (simp add: align_ex)
  have 1: "ffs (search_word radv_consts ex_dev4 (align_u32 300000 (ALLOC_ALIGNMENT radv_consts))) = Suc 7"
    unfolding sz by (simp add: search_ex1 ffs_ex)
  have 2: "7 < length (shader_free_lists ex_dev4)" by (simp add: ex_dev4_def)
  have ar: "shader_arenas ex_dev4 = shader_arenas ex_dev1" by (simp add: ex_dev4_def ex_dev1_def)
  have 3: "find_fit (shader_arenas ex_dev4) (align_u32 300000 (ALLOC_ALIGNMENT radv_consts))
             (shader_free_lists ex_dev4 ! 7) = Some None"
    unfolding sz ar using find_fit_ex1(2) by (simp add: ex_dev4_def)
  have e: "env_calloc ex_env4 = Some 2000" "env_buffer_create ex_env4 = Some (51, 1048576)"
    "env_buffer_map ex_env4"
    by (simp_all add: ex_env4_def)
  have a: "arena_size_of radv_consts ex_dev4 300032 = 524288"
    by (simp add: arena_size_of_def u32_def ex_dev4_def)
  have lt: "300032 < arena_size_of radv_consts ex_dev4 300032" by (simp add: a)
  have o: "first_obj ex_dev4 ex_env4 = None \<or> second_obj ex_dev4 ex_env4 = None"
    by (simp add: first_obj_eq second_obj_eq ex_dev4_def ex_env4_def)
  show ?thesis
    unfolding radv_alloc_nofit_path[OF 1 2 3] sz alloc_new_arena_fail3[OF e lt o] a
    by (simp add: ex_dev1_def ex_dev4_def ex_bo1_def)
qed

lemma env_ok_ex2: "env_ok radv_consts ex_dev1 512 ex_env2"
  by (simp add: env_ok_def ex_dev1_def ex_env2_def align_ex arena_size_of_def u32_def bo_disjoint_def ex_bo1_def)

lemma env_ok_ex3: "env_ok radv_consts ex_dev1 300000 ex_env3"
  by (simp add: env_ok_def ex_dev1_def ex_env3_def align_ex arena_size_of_def u32_def bo_disjoint_def ex_bo1_def)

lemma env_ok_ex4: "env_ok radv_consts ex_dev4 300000 ex_env4"
  by (simp add: env_ok_def ex_dev4_def ex_env4_def align_ex arena_size_of_def u32_def bo_disjoint_def ex_bo1_def)

lemma reachable_dev2: "reachable radv_consts ex_dev2"
  by (rule reach_alloc[OF reachable_dev1 env_ok_ex2 alloc_ex2])

lemma reachable_dev3: "reachable radv_consts ex_dev3"
  by (rule reach_free[OF reachable_dev2 free_ex2])

lemma reachable_dev4: "reachable radv_consts ex_dev4"
  by (rule reach_free[OF reachable_dev2 free_ex3])

lemma reachable_dev5: "reachable radv_consts ex_dev5"
  by (rule reach_alloc[OF reachable_dev1 env_ok_ex3 alloc_ex3])

lemma nah_nth:
  "no_adjacent_holes es \<Longrightarrow> Suc i < length es \<Longrightarrow>
   \<not> (freelist (es ! i) = Linked \<and> freelist (es ! Suc i) = Linked)"
proof (induction es arbitrary: i rule: no_adjacent_holes.induct)
  case 1
  then show ?case by simp
next
  case (2 b)
  then show ?case by simp
next
  case (3 b b' bs)
  show ?case
  proof (cases i)
    case 0
    then show ?thesis using "3.prems" by simp
  next
    case (Suc j)
    then show ?thesis using "3.prems" "3.IH"[of j] by simp
  qed
qed

lemma free_shift:
  assumes "radv_free_shader_memory c dev p = Some dev'"
  shows "shader_arena_shift dev' = shader_arena_shift dev"
proof -
  from assms obtain apre a apost pre alloc post where
    loc: "locate (shader_arenas dev) p = Some (apre, a, apost, pre, alloc, post)"
    by (cases "locate (shader_arenas dev) p") (auto simp: radv_free_shader_memory_def)
  have nl: "freelist alloc \<noteq> Linked"
    using assms loc by (auto simp: radv_free_shader_memory_def split: if_splits)
  obtain pre1 hole1 dev1 where mp: "merge_prev c (pre, alloc, dev) = (pre1, hole1, dev1)"
    by (cases "merge_prev c (pre, alloc, dev)")
  obtain post2 hole2 dev2 where mn: "merge_next c (post, hole1, dev1) = (post2, hole2, dev2)"
    by (cases "merge_next c (post, hole1, dev1)")
  have s: "shader_arena_shift dev2 = shader_arena_shift dev"
    using merge_prev_fields(3)[OF mp] merge_next_fields(3)[OF mn] by simp
  show ?thesis
    using assms s unfolding radv_free_eq[OF loc nl mp mn] by (auto split: if_splits)
qed

lemma merge_prev_none:
  "(pre \<noteq> [] \<Longrightarrow> freelist (last pre) \<noteq> Linked) \<Longrightarrow> merge_prev c (pre, h, d) = (pre, h, d)"
  by (cases "pre = []") (simp_all add: merge_prev_def get_hole_def last_opt_def)

lemma merge_prev_some:
  "freelist hp = Linked \<Longrightarrow>
   merge_prev c (pre @ [hp], h, d) =
     (pre, hp\<lparr>size_b := u32 (size_b hp + size_b h)\<rparr>, free_block_obj (remove_hole c d hp) (blk h))"
  by (simp add: merge_prev_def get_hole_def last_opt_def)

lemma merge_next_none:
  "(post \<noteq> [] \<Longrightarrow> freelist (hd post) \<noteq> Linked) \<Longrightarrow> merge_next c (post, h, d) = (post, h, d)"
  by (cases post) (simp_all add: merge_next_def get_hole_def hd_opt_def)

lemma merge_next_some:
  "freelist hn = Linked \<Longrightarrow>
   merge_next c (hn # post, h, d) =
     (post, hn\<lparr>offset := sub_u32 (offset hn) (size_b h), size_b := u32 (size_b hn + size_b h)\<rparr>,
      free_block_obj (remove_hole c d hn) (blk h))"
  by (simp add: merge_next_def get_hole_def hd_opt_def)

lemma merge_nil [simp]:
  "merge_prev c ([], h, d) = ([], h, d)" "merge_next c ([], h, d) = ([], h, d)"
  by (simp_all add: merge_prev_def merge_next_def get_hole_def last_opt_def hd_opt_def)

lemma all_holes_short:
  assumes "no_adjacent_holes es" "\<forall>b\<in>set es. freelist b = Linked"
  shows "es = [] \<or> (\<exists>x. es = [x])"
proof (cases es)
  case Nil
  then show ?thesis by simp
next
  case (Cons x xs)
  show ?thesis
  proof (cases xs)
    case Nil
    then show ?thesis using Cons by simp
  next
    case (Cons y ys)
    then show ?thesis using assms \<open>es = x # xs\<close> by simp
  qed
qed

lemma merge_pool:
  assumes "merge_prev c (pre, h, d) = (pre1, h1, d1)"
  shows "set (shader_block_obj_pool d1) \<union> {blk h1} \<union> blk ` set pre1 =
         set (shader_block_obj_pool d) \<union> {blk h} \<union> blk ` set pre"
proof (cases "get_hole (last_opt pre)")
  case None
  then show ?thesis using assms by (simp add: merge_prev_def)
next
  case (Some hp)
  then have pre: "pre = butlast pre @ [hp]" unfolding get_hole_last_Some by simp
  have r: "pre1 = butlast pre" "h1 = hp\<lparr>size_b := u32 (size_b hp + size_b h)\<rparr>"
    "d1 = free_block_obj (remove_hole c d hp) (blk h)"
    using assms Some by (simp_all add: merge_prev_def)
  have "blk ` set pre = blk ` set (butlast pre) \<union> {blk hp}"
    by (subst pre) auto
  then show ?thesis unfolding r by auto
qed

lemma merge_next_pool:
  assumes "merge_next c (post, h, d) = (post2, h2, d2)"
  shows "set (shader_block_obj_pool d2) \<union> {blk h2} \<union> blk ` set post2 =
         set (shader_block_obj_pool d) \<union> {blk h} \<union> blk ` set post"
proof (cases "get_hole (hd_opt post)")
  case None
  then show ?thesis using assms by (simp add: merge_next_def)
next
  case (Some hn)
  then have post: "post = hn # tl post" unfolding get_hole_hd_Some by simp
  have r: "post2 = tl post" "h2 = hn\<lparr>offset := sub_u32 (offset hn) (size_b h), size_b := u32 (size_b hn + size_b h)\<rparr>"
    "d2 = free_block_obj (remove_hole c d hn) (blk h)"
    using assms Some by (simp_all add: merge_next_def)
  have "blk ` set post = blk ` set (tl post) \<union> {blk hn}"
    by (subst post) auto
  then show ?thesis unfolding r by auto
qed

lemma free_last_allocation:
  assumes inv: "dev_inv c dev" and ok: "consts_ok c"
    and ar: "shader_arenas dev = apre @ a # apost" and es: "entries a = pre @ alloc # post"
    and nl: "freelist alloc \<noteq> Linked"
    and holes: "\<forall>b\<in>set pre \<union> set post. freelist b = Linked"
  shows "\<exists>dev'. radv_free_shader_memory c dev (blk alloc) = Some dev' \<and>
           shader_arenas dev' = apre @ apost \<and> bo a \<notin> set (ws dev') \<and>
           set (shader_block_obj_pool dev') = set (shader_block_obj_pool dev) \<union> blk ` set (entries a)"
proof -
  have "distinct (map blk (all_blocks (shader_arenas dev)))"
    using dev_invD(2)[OF inv] by simp
  then have d: "distinct (map blk (all_blocks (apre @ a # apost)))"
    unfolding ar .
  have loc: "locate (shader_arenas dev) (blk alloc) = Some (apre, a, apost, pre, alloc, post)"
    unfolding ar by (rule locate_unique[OF d es])
  have a_in: "a \<in> set (shader_arenas dev)" using ar by simp
  have nah: "no_adjacent_holes (pre @ alloc # post)"
    using dev_invD(1)[OF inv a_in] es by (simp add: arena_inv_def arena_coalesced_def)
  then have n: "no_adjacent_holes pre" "no_adjacent_holes post" by (simp_all add: nah_append nah_Cons)
  have sp: "pre = [] \<or> (\<exists>x. pre = [x])" by (rule all_holes_short[OF n(1)]) (use holes in simp)
  have sq: "post = [] \<or> (\<exists>x. post = [x])" by (rule all_holes_short[OF n(2)]) (use holes in simp)
  obtain pre1 hole1 dev1 where mp: "merge_prev c (pre, alloc, dev) = (pre1, hole1, dev1)"
    by (cases "merge_prev c (pre, alloc, dev)")
  obtain post2 hole2 dev2 where mn: "merge_next c (post, hole1, dev1) = (post2, hole2, dev2)"
    by (cases "merge_next c (post, hole1, dev1)")
  have p1: "pre1 = []"
  proof (cases "pre = []")
    case True
    then show ?thesis using mp by simp
  next
    case False
    then obtain x where x: "pre = [] @ [x]" using sp by auto
    then have "freelist x = Linked" using holes by simp
    then show ?thesis using mp unfolding x merge_prev_some[OF \<open>freelist x = Linked\<close>] by simp
  qed
  have p2: "post2 = []"
  proof (cases "post = []")
    case True
    then show ?thesis using mn by simp
  next
    case False
    then obtain x where x: "post = [x]" using sq by auto
    then have "freelist x = Linked" using holes by simp
    then show ?thesis using mn unfolding x merge_next_some[OF \<open>freelist x = Linked\<close>] by simp
  qed
  let ?dev' = "(buffer_destroy (free_block_obj dev2 (blk hole2)) (bo a))\<lparr>shader_arenas := apre @ apost\<rparr>"
  have eq: "radv_free_shader_memory c dev (blk alloc) = Some ?dev'"
    unfolding radv_free_eq[OF loc nl mp mn] using p1 p2 by simp
  have pool: "set (shader_block_obj_pool ?dev') = set (shader_block_obj_pool dev) \<union> blk ` set (entries a)"
    using merge_pool[OF mp] merge_next_pool[OF mn] unfolding p1 p2 es by auto
  show ?thesis using eq pool by simp
qed

lemma distinct_arena_parts:
  assumes "distinct (map blk (all_blocks (apre @ a # apost)))"
  shows "distinct (map blk (entries a))"
    "blk ` set (all_blocks (apre @ apost)) \<inter> blk ` set (entries a) = {}"
proof -
  have d: "distinct (map blk (all_blocks apre) @ map blk (entries a) @ map blk (all_blocks apost))"
    using assms by simp
  show "distinct (map blk (entries a))" using d by simp
  have "set (map blk (all_blocks apre)) \<inter> set (map blk (entries a)) = {}"
    "set (map blk (entries a)) \<inter> set (map blk (all_blocks apost)) = {}"
    using d by auto
  then show "blk ` set (all_blocks (apre @ apost)) \<inter> blk ` set (entries a) = {}"
    by (simp add: image_Un) blast
qed

lemma distinct_blk_neq:
  assumes "distinct (map blk (pre @ alloc # post))" "b \<in> set pre \<union> set post"
  shows "b \<noteq> alloc"
proof -
  have "blk alloc \<notin> blk ` set pre" "blk alloc \<notin> blk ` set post" using assms(1) by auto
  then show ?thesis using assms(2) by auto
qed

lemma free_ws:
  assumes loc: "locate (shader_arenas dev) p = Some (apre, a, apost, pre, alloc, post)"
    and fr: "radv_free_shader_memory c dev p = Some dev'"
  shows "(shader_arenas dev' = apre @ apost \<and> ws dev' = removeAll (bo a) (ws dev)) \<or>
         (\<exists>es. shader_arenas dev' = apre @ a\<lparr>entries := es\<rparr> # apost \<and> ws dev' = ws dev)"
proof -
  have nl: "freelist alloc \<noteq> Linked"
    using fr loc by (auto simp: radv_free_shader_memory_def split: if_splits)
  obtain pre1 hole1 dev1 where mp: "merge_prev c (pre, alloc, dev) = (pre1, hole1, dev1)"
    by (cases "merge_prev c (pre, alloc, dev)")
  obtain post2 hole2 dev2 where mn: "merge_next c (post, hole1, dev1) = (post2, hole2, dev2)"
    by (cases "merge_next c (post, hole1, dev1)")
  have s: "ws dev2 = ws dev"
    using merge_prev_fields(2)[OF mp] merge_next_fields(2)[OF mn] by simp
  show ?thesis
  proof (cases "pre1 = [] \<and> post2 = []")
    case True
    with fr have "dev' = (buffer_destroy (free_block_obj dev2 (blk hole2)) (bo a))\<lparr>shader_arenas := apre @ apost\<rparr>"
      unfolding radv_free_eq[OF loc nl mp mn] by simp
    then show ?thesis using s by (simp add: buffer_destroy_def free_block_obj_def)
  next
    case False
    with fr have "dev' = (add_hole c dev2 hole2)
                \<lparr>shader_arenas :=
                   apre @ a\<lparr>entries := pre1 @ hole2\<lparr>freelist := Linked\<rparr> # post2\<rparr> # apost\<rparr>"
      unfolding radv_free_eq[OF loc nl mp mn] by auto
    then have "shader_arenas dev' = apre @ a\<lparr>entries := pre1 @ hole2\<lparr>freelist := Linked\<rparr> # post2\<rparr> # apost"
      and "ws dev' = ws dev" using s by (simp_all add: add_hole_def Let_def)
    then show ?thesis by blast
  qed
qed

lemma free_alone:
  assumes inv1: "dev_inv c dev1"
    and ar: "shader_arenas dev1 = apre @ a1 # apost"
    and es: "entries a1 = pre @ ablk # post"
    and nl: "freelist ablk \<noteq> Linked"
    and np: "pre \<noteq> [] \<longrightarrow> freelist (last pre) \<noteq> Linked"
    and nn: "post \<noteq> [] \<longrightarrow> freelist (hd post) \<noteq> Linked"
    and ne: "pre \<noteq> [] \<or> post \<noteq> []"
  shows "\<exists>dev2. radv_free_shader_memory c dev1 (blk ablk) = Some dev2 \<and>
           shader_arenas dev2 = apre @ a1\<lparr>entries := pre @ ablk\<lparr>freelist := Linked\<rparr> # post\<rparr> # apost \<and>
           ws dev2 = ws dev1"
proof -
  have d: "distinct (map blk (all_blocks (apre @ a1 # apost)))"
    using dev_invD(2)[OF inv1] unfolding ar by (simp only: distinct_append)
  have loc: "locate (shader_arenas dev1) (blk ablk) = Some (apre, a1, apost, pre, ablk, post)"
    unfolding ar by (rule locate_unique[OF d es])
  have mp: "merge_prev c (pre, ablk, dev1) = (pre, ablk, dev1)"
    by (rule merge_prev_none) (use np in simp)
  have mn: "merge_next c (post, ablk, dev1) = (post, ablk, dev1)"
    by (rule merge_next_none) (use nn in simp)
  have "radv_free_shader_memory c dev1 (blk ablk) =
     Some ((add_hole c dev1 ablk)
                \<lparr>shader_arenas :=
                   apre @ a1\<lparr>entries := pre @ ablk\<lparr>freelist := Linked\<rparr> # post\<rparr> # apost\<rparr>)"
    unfolding radv_free_eq[OF loc nl mp mn] using ne by auto
  then show ?thesis by (simp add: add_hole_def Let_def)
qed

lemma free_into_next:
  assumes inv1: "dev_inv c dev1"
    and ar: "shader_arenas dev1 = apre @ a1 # apost"
    and es: "entries a1 = pre @ ablk # hn # post"
    and nl: "freelist ablk \<noteq> Linked"
    and hl: "freelist hn = Linked"
    and np: "pre \<noteq> [] \<longrightarrow> freelist (last pre) \<noteq> Linked"
    and ne: "pre \<noteq> [] \<or> post \<noteq> []"
  shows "\<exists>dev2. radv_free_shader_memory c dev1 (blk ablk) = Some dev2 \<and>
           shader_arenas dev2 = apre @ a1\<lparr>entries := pre @
              hn\<lparr>offset := sub_u32 (offset hn) (size_b ablk),
                 size_b := u32 (size_b hn + size_b ablk)\<rparr> # post\<rparr> # apost \<and>
           ws dev2 = ws dev1"
proof -
  let ?h2 = "hn\<lparr>offset := sub_u32 (offset hn) (size_b ablk),
                 size_b := u32 (size_b hn + size_b ablk)\<rparr>"
  let ?d2 = "free_block_obj (remove_hole c dev1 hn) (blk ablk)"
  have d: "distinct (map blk (all_blocks (apre @ a1 # apost)))"
    using dev_invD(2)[OF inv1] unfolding ar by (simp only: distinct_append)
  have loc: "locate (shader_arenas dev1) (blk ablk) = Some (apre, a1, apost, pre, ablk, hn # post)"
    unfolding ar by (rule locate_unique[OF d es])
  have mp: "merge_prev c (pre, ablk, dev1) = (pre, ablk, dev1)"
    by (rule merge_prev_none) (use np in simp)
  have mn: "merge_next c (hn # post, ablk, dev1) = (post, ?h2, ?d2)"
    by (rule merge_next_some[OF hl])
  have l: "?h2\<lparr>freelist := Linked\<rparr> = ?h2" using hl by simp
  have "radv_free_shader_memory c dev1 (blk ablk) =
     Some ((add_hole c ?d2 ?h2)
                \<lparr>shader_arenas := apre @ a1\<lparr>entries := pre @ ?h2 # post\<rparr> # apost\<rparr>)"
    unfolding radv_free_eq[OF loc nl mp mn] l using ne by auto
  then show ?thesis
    by (simp add: add_hole_def Let_def free_block_obj_def remove_hole_def)
qed

lemma hole_neighbours:
  assumes "arena_coalesced a" "entries a = pre @ hole # post" "freelist hole = Linked"
  shows "pre \<noteq> [] \<longrightarrow> freelist (last pre) \<noteq> Linked"
    and "post \<noteq> [] \<longrightarrow> freelist (hd post) \<noteq> Linked"
    and "pre \<noteq> [] \<or> post \<noteq> []"
proof -
  from assms(1,2) have n: "no_adjacent_holes (pre @ hole # post)"
    and ex: "\<exists>b\<in>set (pre @ hole # post). freelist b \<noteq> Linked"
    by (simp_all add: arena_coalesced_def)
  from n assms(3) show "pre \<noteq> [] \<longrightarrow> freelist (last pre) \<noteq> Linked"
    by (simp add: nah_append)
  from n assms(3) show "post \<noteq> [] \<longrightarrow> freelist (hd post) \<noteq> Linked"
    by (simp add: nah_append nah_Cons)
  from ex assms(3) show "pre \<noteq> [] \<or> post \<noteq> []" by auto
qed

lemma alloc_new_arena_shape:
  assumes "alloc_new_arena c e dev sz ptr = (Some al, dev1)"
  shows "\<exists>a post h va. shader_arenas dev1 = shader_arenas dev @ [a] \<and> ws dev1 = ws dev @ [bo a] \<and>
           env_buffer_create e = Some (h, va) \<and>
           bo a = \<lparr>bo_handle = h, bo_va = va, bo_size = arena_size_of c dev sz\<rparr> \<and>
           entries a = \<lparr>blk = al, offset = 0, size_b = sz, freelist = Unlinked ptr\<rparr> # post \<and>
           (\<forall>b\<in>set post. freelist b = Linked)"
proof (cases "env_calloc e")
  case None
  then show ?thesis using assms by (simp add: alloc_new_arena_fail1)
next
  case (Some ar)
  show ?thesis
  proof (cases "env_buffer_create e")
    case None
    then show ?thesis using assms Some by (simp add: alloc_new_arena_fail1)
  next
    case cr0: (Some hv)
    obtain h va where hv: "hv = (h, va)" by (cases hv)
    note cr = cr0[unfolded hv]
    show ?thesis
    proof (cases "env_buffer_map e")
      case False
      show ?thesis using assms unfolding alloc_new_arena_fail2[OF Some cr False] by auto
    next
      case True
      show ?thesis
      proof (cases "sz < arena_size_of c dev sz")
        case big: True
        show ?thesis
        proof (cases "first_obj dev e = None \<or> second_obj dev e = None")
          case True
          show ?thesis using assms
            unfolding alloc_new_arena_fail3[OF Some cr \<open>env_buffer_map e\<close> big True] by auto
        next
          case False
          then obtain alp ho where f: "first_obj dev e = Some alp" and s: "second_obj dev e = Some ho"
            by auto
          show ?thesis
          proof (cases "ho = alp")
            case True
            show ?thesis using assms cr
              unfolding alloc_new_arena_same[OF Some cr \<open>env_buffer_map e\<close> big f s[unfolded True]] by auto
          next
            case False
            show ?thesis using assms cr
              unfolding alloc_new_arena_two[OF Some cr \<open>env_buffer_map e\<close> big f s False]
              by (auto simp: add_hole_def Let_def)
          qed
        qed
      next
        case small: False
        show ?thesis
        proof (cases "first_obj dev e")
          case None
          show ?thesis using assms
            unfolding alloc_new_arena_fail4[OF Some cr \<open>env_buffer_map e\<close> small None] by auto
        next
          case (Some alp)
          show ?thesis using assms cr
            unfolding alloc_new_arena_one[OF \<open>env_calloc e = Some ar\<close> cr \<open>env_buffer_map e\<close> small Some] by auto
        qed
      qed
    qed
  qed
qed

lemma roundtrip_exact:
  assumes inv: "dev_inv c dev" and inv1: "dev_inv c dev1"
    and loc: "locate (shader_arenas dev) h = Some (apre, a, apost, pre, hole, post)"
    and hl: "freelist hole = Linked"
    and al: "alloc_from_hole c e dev (size_b hole) ptr h = Some (r, dev1)"
  shows "r = Some h \<and> (\<exists>dev2. radv_free_shader_memory c dev1 h = Some dev2 \<and>
           shader_arenas dev2 = shader_arenas dev \<and> ws dev2 = ws dev)"
proof -
  let ?ablk = "hole\<lparr>freelist := Unlinked ptr\<rparr>"
  let ?a1 = "a\<lparr>entries := pre @ ?ablk # post\<rparr>"
  note ar = locate_SomeD(1)[OF loc] and es = locate_SomeD(2)[OF loc] and bh = locate_SomeD(3)[OF loc]
  from al have r: "r = Some h"
    and d1: "dev1 = (remove_hole c dev hole)\<lparr>shader_arenas := apre @ ?a1 # apost\<rparr>"
    unfolding alloc_from_hole_exact[OF loc refl] by simp_all
  have ar1: "shader_arenas dev1 = apre @ ?a1 # apost" by (simp add: d1)
  have w1: "ws dev1 = ws dev" by (simp add: d1)
  have es1: "entries ?a1 = pre @ ?ablk # post" by simp
  have nl: "freelist ?ablk \<noteq> Linked" by simp
  have "a \<in> set (shader_arenas dev)" by (simp add: ar)
  then have co: "arena_coalesced a" using dev_invD(1)[OF inv] by (simp add: arena_inv_def)
  note nb = hole_neighbours[OF co es hl]
  from free_alone[OF inv1 ar1 es1 nl nb] obtain dev2 where
    f: "radv_free_shader_memory c dev1 (blk ?ablk) = Some dev2"
    and a2: "shader_arenas dev2 = apre @ ?a1\<lparr>entries := pre @ ?ablk\<lparr>freelist := Linked\<rparr> # post\<rparr> # apost"
    and w2: "ws dev2 = ws dev1"
    by (elim exE conjE)
  have "?ablk\<lparr>freelist := Linked\<rparr> = hole" using hl by simp
  then have "?a1\<lparr>entries := pre @ ?ablk\<lparr>freelist := Linked\<rparr> # post\<rparr> = a"
    using es by simp
  then have "shader_arenas dev2 = shader_arenas dev" using a2 ar by simp
  moreover have "radv_free_shader_memory c dev1 h = Some dev2" using f bh by simp
  ultimately show ?thesis using r w1 w2 by simp
qed

lemma roundtrip_split:
  assumes inv: "dev_inv c dev" and inv1: "dev_inv c dev1"
    and loc: "locate (shader_arenas dev) h = Some (apre, a, apost, pre, hole, post)"
    and hl: "freelist hole = Linked"
    and le: "sz \<le> size_b hole" and ne: "sz \<noteq> size_b hole"
    and fo: "first_obj dev e = Some alp"
    and al: "alloc_from_hole c e dev sz ptr h = Some (r, dev1)"
  shows "r = Some alp \<and> (\<exists>dev2. radv_free_shader_memory c dev1 alp = Some dev2 \<and>
           shader_arenas dev2 = shader_arenas dev \<and> ws dev2 = ws dev)"
proof -
  let ?ablk = "\<lparr>blk = alp, offset = offset hole, size_b = sz, freelist = Unlinked ptr\<rparr>"
  let ?hn = "hole\<lparr>offset := u32 (offset hole + sz), size_b := sub_u32 (size_b hole) sz\<rparr>"
  let ?a1 = "a\<lparr>entries := pre @ ?ablk # ?hn # post\<rparr>"
  note ar = locate_SomeD(1)[OF loc] and es = locate_SomeD(2)[OF loc]
  from al have r: "r = Some alp"
    and ar1: "shader_arenas dev1 = apre @ ?a1 # apost"
    unfolding alloc_from_hole_split[OF loc ne fo] by auto
  have w1: "ws dev1 = ws dev" by (rule alloc_from_hole_same_arenas(4)[OF al])
  have es1: "entries ?a1 = pre @ ?ablk # ?hn # post" by simp
  have nl: "freelist ?ablk \<noteq> Linked" by simp
  have hnl: "freelist ?hn = Linked" using hl by simp
  have "a \<in> set (shader_arenas dev)" by (simp add: ar)
  then have co: "arena_coalesced a" and ti: "arena_tiles a"
    using dev_invD(1)[OF inv] by (simp_all add: arena_inv_def)
  note nb = hole_neighbours[OF co es hl]
  from free_into_next[OF inv1 ar1 es1 nl hnl nb(1) nb(3)] obtain dev2 where
    f: "radv_free_shader_memory c dev1 (blk ?ablk) = Some dev2"
    and a2: "shader_arenas dev2 = apre @ ?a1\<lparr>entries := pre @
              ?hn\<lparr>offset := sub_u32 (offset ?hn) (size_b ?ablk),
                 size_b := u32 (size_b ?hn + size_b ?ablk)\<rparr> # post\<rparr> # apost"
    and w2: "ws dev2 = ws dev1"
    by (elim exE conjE)
  note sa = split_arith[OF ti es le]
  have b: "offset hole + size_b hole < 2 ^ 32"
    using arena_tiles_D(2,4,5)[OF ti es] by linarith
  have o: "sub_u32 (offset ?hn) (size_b ?ablk) = offset hole"
  proof -
    have "sub_u32 (offset hole + sz) sz = offset hole + sz - sz"
      by (rule sub_u32_id) (use b le in simp_all)
    then show ?thesis by (simp add: sa)
  qed
  have s: "u32 (size_b ?hn + size_b ?ablk) = size_b hole"
  proof -
    have "u32 (size_b hole) = size_b hole" by (rule u32_id) (use b in simp)
    then show ?thesis using le by (simp add: sa)
  qed
  have "?hn\<lparr>offset := sub_u32 (offset ?hn) (size_b ?ablk),
                 size_b := u32 (size_b ?hn + size_b ?ablk)\<rparr> = hole"
    unfolding o s by simp
  then have "shader_arenas dev2 = apre @ ?a1\<lparr>entries := pre @ hole # post\<rparr> # apost"
    using a2 by simp
  then have "shader_arenas dev2 = shader_arenas dev" using ar es by simp
  moreover have "radv_free_shader_memory c dev1 alp = Some dev2" using f by simp
  ultimately show ?thesis using r w1 w2 by simp
qed

lemma roundtrip_new:
  assumes ok: "consts_ok c" and inv1: "dev_inv c dev1"
    and env: "env_ok c dev sz0 e"
    and new: "alloc_new_arena c e dev (align_u32 sz0 (ALLOC_ALIGNMENT c)) ptr = (Some alp, dev1)"
  shows "\<exists>dev2. radv_free_shader_memory c dev1 alp = Some dev2 \<and>
           shader_arenas dev2 = shader_arenas dev \<and> ws dev2 = ws dev"
proof -
  let ?sz = "align_u32 sz0 (ALLOC_ALIGNMENT c)"
  let ?ablk = "\<lparr>blk = alp, offset = 0, size_b = ?sz, freelist = Unlinked ptr\<rparr>"
  from alloc_new_arena_shape[OF new] obtain a post h va where
    ar1: "shader_arenas dev1 = shader_arenas dev @ a # []" and w1: "ws dev1 = ws dev @ [bo a]"
    and cr: "env_buffer_create e = Some (h, va)"
    and b: "bo a = \<lparr>bo_handle = h, bo_va = va, bo_size = arena_size_of c dev ?sz\<rparr>"
    and es1: "entries a = [] @ ?ablk # post"
    and holes: "\<forall>b\<in>set [] \<union> set post. freelist b = Linked"
    by auto
  have nl: "freelist ?ablk \<noteq> Linked" by simp
  from free_last_allocation[OF inv1 ok ar1 es1 nl holes] obtain dev2 where
    f: "radv_free_shader_memory c dev1 (blk ?ablk) = Some dev2"
    and a2: "shader_arenas dev2 = shader_arenas dev @ []"
    by (elim exE conjE)
  have d: "distinct (map blk (all_blocks (shader_arenas dev @ a # [])))"
    using dev_invD(2)[OF inv1] unfolding ar1 by (simp only: distinct_append)
  have loc: "locate (shader_arenas dev1) (blk ?ablk) = Some (shader_arenas dev, a, [], [], ?ablk, post)"
    unfolding ar1 by (rule locate_unique[OF d es1])
  from free_ws[OF loc f] a2 have "ws dev2 = removeAll (bo a) (ws dev1)" by auto
  also have "\<dots> = ws dev" unfolding w1
  proof (rule fresh_bo)
    show "\<forall>x\<in>set (ws dev). bo_disjoint x (bo a)"
      using env cr unfolding b env_ok_def by blast
    show "0 < bo_size (bo a)" unfolding b using arena_size_of_pos[OF ok] by simp
  qed
  finally show ?thesis using f a2 by simp
qed

lemma same_arenas_same_lists:
  assumes inv: "dev_inv c dev" and inv2: "dev_inv c dev2"
    and ar: "shader_arenas dev2 = shader_arenas dev"
  shows "map set (shader_free_lists dev2) = map set (shader_free_lists dev)"
    and "shader_free_list_mask dev2 = shader_free_list_mask dev"
proof -
  let ?n = "ALLOC_NUM_FREE_LISTS c"
  from dev_invD(4)[OF inv] have l: "length (shader_free_lists dev) = ?n"
    and s: "\<And>k. k < ?n \<Longrightarrow> set (shader_free_lists dev ! k) = hole_ptrs c (all_blocks (shader_arenas dev)) k"
    by (simp_all add: lists_ok_def)
  from dev_invD(4)[OF inv2] have l2: "length (shader_free_lists dev2) = ?n"
    and s2: "\<And>k. k < ?n \<Longrightarrow> set (shader_free_lists dev2 ! k) = hole_ptrs c (all_blocks (shader_arenas dev)) k"
    by (simp_all add: lists_ok_def ar)
  have e: "\<And>k. k < ?n \<Longrightarrow> set (shader_free_lists dev2 ! k) = set (shader_free_lists dev ! k)"
    using s s2 by simp
  show "map set (shader_free_lists dev2) = map set (shader_free_lists dev)"
    by (rule nth_equalityI) (simp_all add: l l2 e)
  have m: "\<And>k. bit (shader_free_list_mask dev) k \<longleftrightarrow> k < ?n \<and> shader_free_lists dev ! k \<noteq> []"
    using dev_invD(5)[OF inv] by (simp add: mask_ok_def)
  have m2: "\<And>k. bit (shader_free_list_mask dev2) k \<longleftrightarrow> k < ?n \<and> shader_free_lists dev2 ! k \<noteq> []"
    using dev_invD(5)[OF inv2] by (simp add: mask_ok_def)
  have ne: "\<And>k. k < ?n \<Longrightarrow> shader_free_lists dev2 ! k = [] \<longleftrightarrow> shader_free_lists dev ! k = []"
  proof -
    fix k assume "k < ?n"
    from e[OF this] show "shader_free_lists dev2 ! k = [] \<longleftrightarrow> shader_free_lists dev ! k = []"
      by (metis set_empty)
  qed
  show "shader_free_list_mask dev2 = shader_free_list_mask dev"
  proof (rule bit_eqI)
    fix k
    show "bit (shader_free_list_mask dev2) k \<longleftrightarrow> bit (shader_free_list_mask dev) k"
      unfolding m m2 using ne[of k] by blast
  qed
qed

lemma roundtrip_arenas:
  assumes ok: "consts_ok c" and inv: "dev_inv c dev" and env: "env_ok c dev sz0 e"
    and al: "radv_alloc_shader_memory c e dev sz0 ptr = Some (Some p, dev1)"
  shows "\<exists>dev2. radv_free_shader_memory c dev1 p = Some dev2 \<and>
           shader_arenas dev2 = shader_arenas dev \<and> ws dev2 = ws dev"
proof -
  let ?sz = "align_u32 sz0 (ALLOC_ALIGNMENT c)"
  have inv1: "dev_inv c dev1" by (rule dev_inv_alloc[OF inv ok env al])
  from al show ?thesis
  proof (cases rule: radv_alloc_cases)
    case (hole k h)
    from dev_invD(4)[OF inv] hole(2) have k: "k < ALLOC_NUM_FREE_LISTS c"
      by (simp add: lists_ok_def)
    from find_fit_SomeD[OF hole(3)] obtain apre a apost pre hb post where
      hin: "h \<in> set (shader_free_lists dev ! k)"
      and loc: "locate (shader_arenas dev) h = Some (apre, a, apost, pre, hb, post)"
      and ge: "\<not> size_b hb < ?sz"
      by auto
    from listed_hole(2)[OF inv k hin loc] have hl: "freelist hb = Linked" by simp
    show ?thesis
    proof (cases "?sz = size_b hb")
      case True
      from hole(4) have "alloc_from_hole c e dev (size_b hb) ptr h = Some (Some p, dev1)"
        unfolding True .
      from roundtrip_exact[OF inv inv1 loc hl this] show ?thesis by auto
    next
      case False
      from ge have le: "?sz \<le> size_b hb" by simp
      show ?thesis
      proof (cases "first_obj dev e")
        case None
        from hole(4) show ?thesis
          unfolding alloc_from_hole_nomem[OF loc False None] by simp
      next
        case (Some alp)
        from roundtrip_split[OF inv inv1 loc hl le False Some hole(4)] show ?thesis by auto
      qed
    qed
  next
    case (nofit k)
    from roundtrip_new[OF ok inv1 env nofit(4)] show ?thesis .
  next
    case empty
    from roundtrip_new[OF ok inv1 env empty(2)] show ?thesis .
  qed
qed

lemma offsets_ok_within:
  "offsets_ok s es \<Longrightarrow> b \<in> set es \<Longrightarrow>
     s \<le> offset b \<and> offset b + size_b b \<le> s + sum_list (map size_b es)"
proof (induction es arbitrary: s)
  case Nil
  then show ?case by simp
next
  case (Cons x xs)
  show ?case
  proof (cases "b = x")
    case True
    with Cons.prems show ?thesis by simp
  next
    case False
    with Cons.prems have "offsets_ok (s + size_b x) xs" "b \<in> set xs" by simp_all
    from Cons.IH[OF this] show ?thesis by simp
  qed
qed

lemma offsets_ok_order:
  assumes "offsets_ok s (pre @ b # post)" "b' \<in> set post"
  shows "offset b + size_b b \<le> offset b'"
proof -
  from assms(1) have o: "offset b = s + sum_list (map size_b pre)"
    and p: "offsets_ok (s + sum_list (map size_b pre) + size_b b) post"
    by simp_all
  from offsets_ok_within[OF p assms(2)] o show ?thesis by simp
qed

lemma same_arena_disjoint:
  assumes o: "offsets_ok s es" and b: "b \<in> set es" and b': "b' \<in> set es" and ne: "b \<noteq> b'"
  shows "offset b + size_b b \<le> offset b' \<or> offset b' + size_b b' \<le> offset b"
proof -
  from b obtain pre post where es: "es = pre @ b # post" by (auto dest: split_list)
  from b' ne es have "b' \<in> set pre \<or> b' \<in> set post" by auto
  then show ?thesis
  proof
    assume "b' \<in> set post"
    from offsets_ok_order[OF o[unfolded es] this] show ?thesis by simp
  next
    assume "b' \<in> set pre"
    then obtain p1 p2 where pre: "pre = p1 @ b' # p2" by (auto dest: split_list)
    have e2: "es = p1 @ b' # (p2 @ b # post)" by (simp add: es pre)
    have "b \<in> set (p2 @ b # post)" by simp
    from offsets_ok_order[OF o[unfolded e2] this] show ?thesis by simp
  qed
qed

lemma block_in_buffer:
  assumes "arena_tiles a" "b \<in> set (entries a)"
  shows "offset b + size_b b \<le> bo_size (bo a)"
proof -
  from assms(1) have o: "offsets_ok 0 (entries a)"
    and s: "sum_list (map size_b (entries a)) = bo_size (bo a)"
    by (simp_all add: arena_tiles_def)
  from offsets_ok_within[OF o assms(2)] s show ?thesis by simp
qed

lemma no_aliasing:
  assumes inv: "dev_inv c dev"
    and a: "a \<in> set (shader_arenas dev)" and a': "a' \<in> set (shader_arenas dev)"
    and b: "b \<in> set (entries a)" and b': "b' \<in> set (entries a')"
    and ne: "blk b \<noteq> blk b'"
  shows "blocks_disjoint a b a' b'"
proof (cases "a = a'")
  case True
  have t: "arena_tiles a" using dev_invD(1)[OF inv a] by (simp add: arena_inv_def)
  then have o: "offsets_ok 0 (entries a)" by (simp add: arena_tiles_def)
  from ne have "b \<noteq> b'" by auto
  from same_arena_disjoint[OF o b b'[folded True] this] show ?thesis
    by (auto simp: blocks_disjoint_def block_start_def True)
next
  case False
  have t: "arena_tiles a" using dev_invD(1)[OF inv a] by (simp add: arena_inv_def)
  have t': "arena_tiles a'" using dev_invD(1)[OF inv a'] by (simp add: arena_inv_def)
  note i = block_in_buffer[OF t b] and i' = block_in_buffer[OF t' b']
  from a obtain apre apost where ar: "shader_arenas dev = apre @ a # apost"
    by (auto dest: split_list)
  from a' False ar have m: "a' \<in> set (apre @ apost)" by auto
  from pairwise_disjoint_mid(2)[OF dev_invD(7)[OF inv, unfolded ar]] m
  have "bo_disjoint (bo a') (bo a)" by blast
  then show ?thesis using i i'
    by (auto simp: blocks_disjoint_def block_start_def bo_disjoint_def)
qed

lemma align_u32_exact:
  assumes "0 < a" "v + a \<le> 2 ^ 32"
  shows "align_u32 v a = (v + a - 1) div a * a"
    and "v \<le> align_u32 v a" and "align_u32 v a < v + a" and "a dvd align_u32 v a"
proof -
  let ?r = "(v + a - 1) div a * a"
  have le: "?r \<le> v + a - 1" by (rule div_times_less_eq_dividend)
  have "v + a - 1 < 2 ^ 32" using assms by linarith
  with le have "?r < 2 ^ 32" by (rule le_less_trans)
  then show e: "align_u32 v a = ?r" unfolding align_u32_def by (rule u32_id)
  show "align_u32 v a < v + a" unfolding e using le assms(1) by linarith
  show "a dvd align_u32 v a" unfolding e by simp
  have "v + a - 1 < ?r + a"
    using assms(1) by (metis dividend_less_div_times add.commute mult.commute)
  then show "v \<le> align_u32 v a" unfolding e using assms(1) by linarith
qed

lemma alloc_returns_block:
  assumes ok: "consts_ok c" and inv: "dev_inv c dev"
    and al: "radv_alloc_shader_memory c e dev sz0 ptr = Some (Some p, dev1)"
  shows "\<exists>a\<in>set (shader_arenas dev1). \<exists>b\<in>set (entries a).
           blk b = p \<and> freelist b = Unlinked ptr \<and> size_b b = align_u32 sz0 (ALLOC_ALIGNMENT c)"
proof -
  let ?sz = "align_u32 sz0 (ALLOC_ALIGNMENT c)"
  have new: "\<exists>a\<in>set (shader_arenas dev1). \<exists>b\<in>set (entries a).
           blk b = p \<and> freelist b = Unlinked ptr \<and> size_b b = ?sz"
    if n: "alloc_new_arena c e dev ?sz ptr = (Some p, dev1)"
  proof -
    from alloc_new_arena_shape[OF n] obtain a post where
      ar1: "shader_arenas dev1 = shader_arenas dev @ [a]"
      and es1: "entries a = \<lparr>blk = p, offset = 0, size_b = ?sz, freelist = Unlinked ptr\<rparr> # post"
      by auto
    have "a \<in> set (shader_arenas dev1)" by (simp add: ar1)
    moreover have "\<lparr>blk = p, offset = 0, size_b = ?sz, freelist = Unlinked ptr\<rparr> \<in> set (entries a)"
      by (simp add: es1)
    ultimately show ?thesis by force
  qed
  from al show ?thesis
  proof (cases rule: radv_alloc_cases)
    case (hole k h)
    from find_fit_SomeD[OF hole(3)] obtain apre a apost pre hb post where
      loc: "locate (shader_arenas dev) h = Some (apre, a, apost, pre, hb, post)"
      by auto
    show ?thesis
    proof (cases "?sz = size_b hb")
      case True
      let ?b = "hb\<lparr>freelist := Unlinked ptr\<rparr>"
      let ?a = "a\<lparr>entries := pre @ ?b # post\<rparr>"
      from hole(4) have p: "p = h" and ar1: "shader_arenas dev1 = apre @ ?a # apost"
        unfolding alloc_from_hole_exact[OF loc True] by auto
      have "?a \<in> set (shader_arenas dev1)" by (simp add: ar1)
      moreover have "?b \<in> set (entries ?a)" by simp
      moreover have "blk ?b = p" using locate_SomeD(3)[OF loc] p by simp
      moreover have "freelist ?b = Unlinked ptr" "size_b ?b = ?sz" using True by simp_all
      ultimately show ?thesis by blast
    next
      case False
      show ?thesis
      proof (cases "first_obj dev e")
        case None
        from hole(4) show ?thesis
          unfolding alloc_from_hole_nomem[OF loc False None] by simp
      next
        case (Some alp)
        let ?b = "\<lparr>blk = alp, offset = offset hb, size_b = ?sz, freelist = Unlinked ptr\<rparr>"
        let ?hn = "hb\<lparr>offset := u32 (offset hb + ?sz), size_b := sub_u32 (size_b hb) ?sz\<rparr>"
        let ?a = "a\<lparr>entries := pre @ ?b # ?hn # post\<rparr>"
        from hole(4) have p: "p = alp" and ar1: "shader_arenas dev1 = apre @ ?a # apost"
          unfolding alloc_from_hole_split[OF loc False Some] by auto
        have "?a \<in> set (shader_arenas dev1)" by (simp add: ar1)
        moreover have "?b \<in> set (entries ?a)" by simp
        moreover have "blk ?b = p" "freelist ?b = Unlinked ptr" "size_b ?b = ?sz" using p by simp_all
        ultimately show ?thesis by blast
      qed
    qed
  next
    case (nofit k)
    from new[OF nofit(4)] show ?thesis .
  next
    case empty
    from new[OF empty(2)] show ?thesis .
  qed
qed

lemma alloc_wrap_ex:
  "radv_alloc_shader_memory radv_consts ex_env1 empty_dev 4294967295 7 = Some (Some 1, ex_dev6)"
proof -
  have a: "arena_size_of radv_consts empty_dev 0 = 262144"
    by (simp add: arena_size_of_def u32_def empty_dev_def)
  have c: "get_size_class radv_consts 262144 False = 7"
    by (simp add: get_size_class_def ulog_simps)
  have e: "env_calloc ex_env1 = Some 1000" "env_buffer_create ex_env1 = Some (50, 4096)" "env_buffer_map ex_env1"
    by (simp_all add: ex_env1_def)
  have lt: "0 < arena_size_of radv_consts empty_dev 0" by (simp add: a)
  have ne: "(2::nat) \<noteq> 1" by simp
  have n: "alloc_new_arena radv_consts ex_env1 empty_dev 0 7 = (Some 1, ex_dev6)"
    unfolding alloc_new_arena_two[OF e lt objs_ex1 ne] a
    by (simp add: add_hole_def c empty_dev_def ex_dev6_def ex_bo1_def)
  show ?thesis
    by (simp add: radv_alloc_eq align_ex search_empty ffs_0 n)
qed

lemma pool_after_failure:
  assumes "first_obj dev e = None \<or> second_obj dev e = None"
  shows "tl (tl (shader_block_obj_pool dev)) = []"
    and "shader_block_obj_pool dev = [] \<or> (\<exists>x. shader_block_obj_pool dev = [x])"
  using assms
  by (auto simp: first_obj_eq second_obj_eq split: list.splits)

lemma alloc_new_arena_none:
  assumes ok: "consts_ok c"
    and env: "\<forall>h va. env_buffer_create e = Some (h, va) \<longrightarrow>
        (\<forall>b\<in>set (ws dev).
           bo_disjoint b \<lparr>bo_handle = h, bo_va = va, bo_size = arena_size_of c dev sz\<rparr>)"
    and n: "alloc_new_arena c e dev sz ptr = (None, dev1)"
  shows "shader_arenas dev1 = shader_arenas dev \<and> ws dev1 = ws dev \<and>
         shader_free_lists dev1 = shader_free_lists dev \<and>
         shader_free_list_mask dev1 = shader_free_list_mask dev \<and>
         shader_arena_shift dev1 = shader_arena_shift dev \<and>
         (shader_block_obj_pool dev1 = shader_block_obj_pool dev \<or>
          (\<exists>x. shader_block_obj_pool dev = [x] \<and> shader_block_obj_pool dev1 = []))"
proof (cases "env_calloc e")
  case None
  then show ?thesis using n by (simp add: alloc_new_arena_fail1)
next
  case (Some ar)
  show ?thesis
  proof (cases "env_buffer_create e")
    case None
    then show ?thesis using n Some by (simp add: alloc_new_arena_fail1)
  next
    case cr0: (Some hv)
    obtain h va where hv: "hv = (h, va)" by (cases hv)
    note cr = cr0[unfolded hv]
    let ?b = "\<lparr>bo_handle = h, bo_va = va, bo_size = arena_size_of c dev sz\<rparr>"
    have w: "removeAll ?b (ws dev @ [?b]) = ws dev"
    proof (rule fresh_bo)
      show "\<forall>x\<in>set (ws dev). bo_disjoint x ?b" using env cr by blast
      show "0 < bo_size ?b" using arena_size_of_pos[OF ok] by simp
    qed
    show ?thesis
    proof (cases "env_buffer_map e")
      case False
      show ?thesis using n unfolding alloc_new_arena_fail2[OF Some cr False] w by auto
    next
      case True
      show ?thesis
      proof (cases "sz < arena_size_of c dev sz")
        case big: True
        show ?thesis
        proof (cases "first_obj dev e = None \<or> second_obj dev e = None")
          case f: True
          note p = pool_after_failure[OF f]
          show ?thesis using n p(2)
            unfolding alloc_new_arena_fail3[OF Some cr \<open>env_buffer_map e\<close> big f] w p(1) by auto
        next
          case False
          then obtain alp ho where f: "first_obj dev e = Some alp" and s: "second_obj dev e = Some ho"
            by auto
          show ?thesis
          proof (cases "ho = alp")
            case True
            show ?thesis using n
              unfolding alloc_new_arena_same[OF Some cr \<open>env_buffer_map e\<close> big f s[unfolded True]] by simp
          next
            case False
            show ?thesis using n
              unfolding alloc_new_arena_two[OF Some cr \<open>env_buffer_map e\<close> big f s False] by simp
          qed
        qed
      next
        case small: False
        show ?thesis
        proof (cases "first_obj dev e")
          case None
          then have "shader_block_obj_pool dev = []"
            by (auto simp: first_obj_eq split: list.splits)
          then show ?thesis using n
            unfolding alloc_new_arena_fail4[OF Some cr \<open>env_buffer_map e\<close> small None] w by auto
        next
          case f: (Some alp)
          show ?thesis using n
            unfolding alloc_new_arena_one[OF \<open>env_calloc e = Some ar\<close> cr \<open>env_buffer_map e\<close> small f] by simp
        qed
      qed
    qed
  qed
qed

lemma alloc_new_arena_backend_fails:
  assumes "env_calloc e = None \<or> env_buffer_create e = None \<or> \<not> env_buffer_map e"
  shows "fst (alloc_new_arena c e dev sz ptr) = None"
proof (cases "env_calloc e")
  case None
  then show ?thesis by (simp add: alloc_new_arena_fail1)
next
  case (Some ar)
  show ?thesis
  proof (cases "env_buffer_create e")
    case None
    then show ?thesis using Some by (simp add: alloc_new_arena_fail1)
  next
    case cr0: (Some hv)
    obtain h va where hv: "hv = (h, va)" by (cases hv)
    note cr = cr0[unfolded hv]
    from assms Some cr have m: "\<not> env_buffer_map e" by simp
    show ?thesis unfolding alloc_new_arena_fail2[OF Some cr m] by simp
  qed
qed

lemma scan_shaders_SomeD:
  "scan_shaders c sh pc ss = Some (Some s) \<Longrightarrow>
   s \<in> set ss \<and> s \<noteq> 0 \<and>
   (\<exists>x. sh s = Some x \<and> shader_va x \<le> pc \<and>
        pc < u64 (shader_va x + align_u32 (shader_code_size x) (ALLOC_ALIGNMENT c)))"
proof (induction ss)
  case Nil
  then show ?case by simp
next
  case (Cons t ts)
  show ?case
  proof (cases "t = 0")
    case True
    with Cons show ?thesis by simp
  next
    case False
    show ?thesis
    proof (cases "sh t")
      case None
      with Cons.prems False show ?thesis by simp
    next
      case (Some x)
      show ?thesis
      proof (cases "shader_va x \<le> pc \<and>
                pc < u64 (shader_va x + align_u32 (shader_code_size x) (ALLOC_ALIGNMENT c))")
        case True
        with Cons.prems False Some have "s = t" by simp
        with True Some False show ?thesis by simp
      next
        case no: False
        with Cons.prems False Some have "scan_shaders c sh pc ts = Some (Some s)" by auto
        from Cons.IH[OF this] show ?thesis by simp
      qed
    qed
  qed
qed

lemma find_blocks_miss:
  "\<forall>b\<in>set bs. \<not> block_hit a b pc \<Longrightarrow> find_blocks c m pc a bs = Some None"
  by (induction bs) simp_all

lemma find_blocks_SomeD:
  "find_blocks c m pc a bs = Some (Some s) \<Longrightarrow>
   \<exists>b\<in>set bs. \<exists>p shs. block_hit a b pc \<and> freelist b = Unlinked p \<and>
      pipeline_at m p = Some shs \<and> scan_shaders c (shader_at m) pc shs = Some (Some s)"
proof (induction bs)
  case Nil
  then show ?case by simp
next
  case (Cons b bs)
  show ?case
  proof (cases "block_hit a b pc")
    case False
    with Cons.prems have "find_blocks c m pc a bs = Some (Some s)" by simp
    from Cons.IH[OF this] show ?thesis by auto
  next
    case True
    show ?thesis
    proof (cases "freelist b")
      case Linked
      with True show ?thesis by (simp add: block_hit_def Let_def)
    next
      case (Unlinked p)
      show ?thesis
      proof (cases "pipeline_at m p")
        case None
        with Cons.prems True Unlinked show ?thesis by simp
      next
        case (Some shs)
        show ?thesis
        proof (cases "scan_shaders c (shader_at m) pc shs")
          case None
          with Cons.prems True Unlinked Some show ?thesis by simp
        next
          case sc: (Some r)
          show ?thesis
          proof (cases r)
            case None
            with Cons.prems True Unlinked Some sc
            have "find_blocks c m pc a bs = Some (Some s)" by simp
            from Cons.IH[OF this] show ?thesis by auto
          next
            case (Some s')
            with Cons.prems True Unlinked \<open>pipeline_at m p = Some shs\<close> sc have "s' = s" by simp
            with True Unlinked \<open>pipeline_at m p = Some shs\<close> sc Some show ?thesis by auto
          qed
        qed
      qed
    qed
  qed
qed

lemma find_arenas_miss:
  "\<forall>a\<in>set as. \<forall>b\<in>set (entries a). \<not> block_hit a b pc \<Longrightarrow> find_arenas c m pc as = Some None"
  by (induction as) (simp_all add: find_blocks_miss)

lemma find_arenas_SomeD:
  "find_arenas c m pc as = Some (Some s) \<Longrightarrow>
   \<exists>a\<in>set as. \<exists>b\<in>set (entries a). \<exists>p shs. block_hit a b pc \<and> freelist b = Unlinked p \<and>
      pipeline_at m p = Some shs \<and> scan_shaders c (shader_at m) pc shs = Some (Some s)"
proof (induction as)
  case Nil
  then show ?case by simp
next
  case (Cons a as)
  show ?case
  proof (cases "find_blocks c m pc a (entries a) = Some (Some s)")
    case True
    from find_blocks_SomeD[OF True] show ?thesis by auto
  next
    case False
    with Cons.prems have "find_arenas c m pc as = Some (Some s)"
      by (auto split: option.splits)
    from Cons.IH[OF this] show ?thesis by auto
  qed
qed

lemma u64_id: "x < 2 ^ 64 \<Longrightarrow> u64 x = x"
  by (simp add: u64_def)

lemma block_hit_contains:
  assumes t: "arena_tiles a" and b: "b \<in> set (entries a)"
    and w: "bo_va (bo a) + bo_size (bo a) < 2 ^ 64"
  shows "block_hit a b pc \<longleftrightarrow> freelist b \<noteq> Linked \<and> block_contains a b pc"
proof -
  from block_in_buffer[OF t b] w have e: "bo_va (bo a) + offset b + size_b b < 2 ^ 64" by linarith
  then have s: "bo_va (bo a) + offset b < 2 ^ 64" by linarith
  show ?thesis
    unfolding block_hit_def Let_def u64_id[OF s] u64_id[OF e] block_contains_def block_start_def
    by simp
qed

lemma containing_block_unique:
  assumes inv: "dev_inv c dev"
    and a: "a \<in> set (shader_arenas dev)" and a': "a' \<in> set (shader_arenas dev)"
    and b: "b \<in> set (entries a)" and b': "b' \<in> set (entries a')"
    and h: "block_contains a b pc" and h': "block_contains a' b' pc"
  shows "blk b' = blk b"
proof (rule ccontr)
  assume "blk b' \<noteq> blk b"
  then have "blk b \<noteq> blk b'" by simp
  from no_aliasing[OF inv a a' b b' this] h h' show False
    by (auto simp: blocks_disjoint_def block_contains_def)
qed

lemma find_ex:
  "radv_find_shader radv_consts ex_mem ex_dev2 4100 = Some (Some 70)"
  "radv_find_shader radv_consts ex_mem ex_dev2 4700 = Some None"
  "radv_find_shader radv_consts ex_mem ex_dev2 5000 = Some None"
  by (simp_all add: radv_find_shader_def ex_dev2_def ex_bo1_def ex_mem_def block_hit_def u64_def
      align_u32_def u32_def radv_consts_def)

lemma contains_ex:
  "block_contains (hd (shader_arenas ex_dev2)) (entries (hd (shader_arenas ex_dev2)) ! 0) 4100"
  "block_contains (hd (shader_arenas ex_dev2)) (entries (hd (shader_arenas ex_dev2)) ! 1) 4700"
  "freelist (entries (hd (shader_arenas ex_dev2)) ! 0) = Unlinked 7"
  "freelist (entries (hd (shader_arenas ex_dev2)) ! 1) = Unlinked 8"
  by (simp_all add: block_contains_def block_start_def ex_dev2_def ex_bo1_def)

lemma fits_ex: "\<forall>a\<in>set (shader_arenas ex_dev2). bo_va (bo a) + bo_size (bo a) < 2 ^ 64"
  by (simp add: ex_dev2_def ex_bo1_def)

lemma alloc_new_arena_outcome:
  assumes ok: "consts_ok c"
    and env: "\<forall>h va. env_buffer_create e = Some (h, va) \<longrightarrow>
        (\<forall>b\<in>set (ws dev).
           bo_disjoint b \<lparr>bo_handle = h, bo_va = va, bo_size = arena_size_of c dev sz\<rparr>)"
  shows "env_calloc e = None \<or> env_buffer_create e = None \<or> \<not> env_buffer_map e \<Longrightarrow>
           alloc_new_arena c e dev sz ptr = (None, dev)"
    and "\<not> (env_calloc e = None \<or> env_buffer_create e = None \<or> \<not> env_buffer_map e) \<Longrightarrow>
         first_obj dev e = None \<or> (sz < arena_size_of c dev sz \<and> second_obj dev e = None) \<Longrightarrow>
           alloc_new_arena c e dev sz ptr = (None, dev\<lparr>shader_block_obj_pool := []\<rparr>) \<and>
           length (shader_block_obj_pool dev) \<le> 1"
    and "\<not> (env_calloc e = None \<or> env_buffer_create e = None \<or> \<not> env_buffer_map e) \<Longrightarrow>
         \<not> (first_obj dev e = None \<or> (sz < arena_size_of c dev sz \<and> second_obj dev e = None)) \<Longrightarrow>
           fst (alloc_new_arena c e dev sz ptr) = first_obj dev e \<and> first_obj dev e \<noteq> None"
proof -
  have w: "removeAll \<lparr>bo_handle = h, bo_va = va, bo_size = arena_size_of c dev sz\<rparr>
             (ws dev @ [\<lparr>bo_handle = h, bo_va = va, bo_size = arena_size_of c dev sz\<rparr>]) = ws dev"
    if cr: "env_buffer_create e = Some (h, va)" for h va
  proof (rule fresh_bo)
    show "\<forall>x\<in>set (ws dev). bo_disjoint x \<lparr>bo_handle = h, bo_va = va, bo_size = arena_size_of c dev sz\<rparr>"
      using env cr by blast
    show "0 < bo_size \<lparr>bo_handle = h, bo_va = va, bo_size = arena_size_of c dev sz\<rparr>"
      using arena_size_of_pos[OF ok] by simp
  qed
  show "alloc_new_arena c e dev sz ptr = (None, dev)"
    if f: "env_calloc e = None \<or> env_buffer_create e = None \<or> \<not> env_buffer_map e"
  proof (cases "env_calloc e")
    case None
    then show ?thesis by (simp add: alloc_new_arena_fail1)
  next
    case (Some ar)
    show ?thesis
    proof (cases "env_buffer_create e")
      case None
      then show ?thesis using Some by (simp add: alloc_new_arena_fail1)
    next
      case cr0: (Some hv)
      obtain h va where hv: "hv = (h, va)" by (cases hv)
      note cr = cr0[unfolded hv]
      from f Some cr have m: "\<not> env_buffer_map e" by simp
      show ?thesis unfolding alloc_new_arena_fail2[OF Some cr m] w[OF cr] by simp
    qed
  qed
  {
    assume nb: "\<not> (env_calloc e = None \<or> env_buffer_create e = None \<or> \<not> env_buffer_map e)"
    then obtain ar h va where ca: "env_calloc e = Some ar" and cr: "env_buffer_create e = Some (h, va)"
      and mp: "env_buffer_map e"
      by auto
    show "alloc_new_arena c e dev sz ptr = (None, dev\<lparr>shader_block_obj_pool := []\<rparr>) \<and>
           length (shader_block_obj_pool dev) \<le> 1"
      if fd: "first_obj dev e = None \<or> (sz < arena_size_of c dev sz \<and> second_obj dev e = None)"
    proof (cases "sz < arena_size_of c dev sz")
      case big: True
      from fd big have f: "first_obj dev e = None \<or> second_obj dev e = None" by auto
      have p: "tl (tl (shader_block_obj_pool dev)) = []" "length (shader_block_obj_pool dev) \<le> 1"
        using f by (auto simp: first_obj_eq second_obj_eq split: list.splits)
      show ?thesis
        unfolding alloc_new_arena_fail3[OF ca cr mp big f] w[OF cr] p(1) using p(2) by simp
    next
      case small: False
      with fd have f: "first_obj dev e = None" by auto
      then have p: "shader_block_obj_pool dev = []"
        by (auto simp: first_obj_eq split: list.splits)
      show ?thesis
        unfolding alloc_new_arena_fail4[OF ca cr mp small f] w[OF cr] p by simp
    qed
    show "fst (alloc_new_arena c e dev sz ptr) = first_obj dev e \<and> first_obj dev e \<noteq> None"
      if nd: "\<not> (first_obj dev e = None \<or> (sz < arena_size_of c dev sz \<and> second_obj dev e = None))"
    proof -
      from nd obtain alp where f: "first_obj dev e = Some alp" by auto
      show ?thesis
      proof (cases "sz < arena_size_of c dev sz")
        case big: True
        with nd obtain ho where s: "second_obj dev e = Some ho" by auto
        show ?thesis
        proof (cases "ho = alp")
          case True
          show ?thesis
            unfolding alloc_new_arena_same[OF ca cr mp big f s[unfolded True]] by (simp add: f)
        next
          case False
          show ?thesis
            unfolding alloc_new_arena_two[OF ca cr mp big f s False] by (simp add: f)
        qed
      next
        case small: False
        show ?thesis
          unfolding alloc_new_arena_one[OF ca cr mp small f] by (simp add: f)
      qed
    qed
  }
qed

lemma scan_shaders_first:
  assumes "\<forall>s\<in>set shs. s \<noteq> 0 \<longrightarrow> shader_at m s \<noteq> None"
    and "i < length shs" and "shs ! i \<noteq> 0" and "shader_covers c m (shs ! i) pc"
    and "\<forall>j<i. shs ! j \<noteq> 0 \<longrightarrow> \<not> shader_covers c m (shs ! j) pc"
  shows "scan_shaders c (shader_at m) pc shs = Some (Some (shs ! i))"
  using assms
proof (induction shs arbitrary: i)
  case Nil
  then show ?case by simp
next
  case (Cons t ts)
  show ?case
  proof (cases i)
    case 0
    with Cons.prems(3,4) show ?thesis
      by (auto simp: shader_covers_def split: option.splits)
  next
    case (Suc i')
    have v: "\<forall>s\<in>set ts. s \<noteq> 0 \<longrightarrow> shader_at m s \<noteq> None" using Cons.prems(1) by simp
    have i': "i' < length ts" "ts ! i' \<noteq> 0" "shader_covers c m (ts ! i') pc"
      using Cons.prems(2,3,4) Suc by simp_all
    have b: "\<forall>j<i'. ts ! j \<noteq> 0 \<longrightarrow> \<not> shader_covers c m (ts ! j) pc"
    proof (intro allI impI)
      fix j assume "j < i'" "ts ! j \<noteq> 0"
      then have "Suc j < i" "(t # ts) ! Suc j \<noteq> 0" using Suc by simp_all
      with Cons.prems(5) have "\<not> shader_covers c m ((t # ts) ! Suc j) pc" by blast
      then show "\<not> shader_covers c m (ts ! j) pc" by simp
    qed
    note ih = Cons.IH[OF v i' b]
    have t0: "t \<noteq> 0 \<longrightarrow> \<not> shader_covers c m t pc"
      using Cons.prems(5)[rule_format, of 0] Suc by simp
    have tv: "t \<noteq> 0 \<longrightarrow> shader_at m t \<noteq> None" using Cons.prems(1) by simp
    show ?thesis
    proof (cases "t = 0")
      case True
      then show ?thesis using ih Suc by simp
    next
      case False
      with tv obtain x where x: "shader_at m t = Some x" by auto
      from t0 False x have "\<not> (shader_va x \<le> pc \<and>
          pc < u64 (shader_va x + align_u32 (shader_code_size x) (ALLOC_ALIGNMENT c)))"
        by (simp add: shader_covers_def)
      then show ?thesis using False x ih Suc by auto
    qed
  qed
qed

lemma scan_shaders_none:
  assumes "\<forall>s\<in>set shs. s \<noteq> 0 \<longrightarrow> shader_at m s \<noteq> None \<and> \<not> shader_covers c m s pc"
  shows "scan_shaders c (shader_at m) pc shs = Some None"
  using assms
proof (induction shs)
  case Nil
  then show ?case by simp
next
  case (Cons t ts)
  then have ih: "scan_shaders c (shader_at m) pc ts = Some None" by simp
  show ?case
  proof (cases "t = 0")
    case True
    then show ?thesis using ih by simp
  next
    case False
    with Cons.prems obtain x where x: "shader_at m t = Some x" and n: "\<not> shader_covers c m t pc"
      by auto
    from n x have "\<not> (shader_va x \<le> pc \<and>
          pc < u64 (shader_va x + align_u32 (shader_code_size x) (ALLOC_ALIGNMENT c)))"
      by (simp add: shader_covers_def)
    then show ?thesis using False x ih by auto
  qed
qed

lemma find_blocks_unique_hit:
  assumes "\<forall>x\<in>set pre. \<not> block_hit a x pc" and "\<forall>x\<in>set post. \<not> block_hit a x pc"
    and "block_hit a b pc" and "freelist b = Unlinked p"
  shows "find_blocks c m pc a (pre @ b # post) =
           (case pipeline_at m p of None \<Rightarrow> None
            | Some shs \<Rightarrow> scan_shaders c (shader_at m) pc shs)"
  using assms(1)
proof (induction pre)
  case Nil
  have t: "find_blocks c m pc a post = Some None" by (rule find_blocks_miss[OF assms(2)])
  show ?case
  proof (cases "pipeline_at m p")
    case None
    then show ?thesis using assms(3,4) by simp
  next
    case (Some shs)
    show ?thesis
    proof (cases "scan_shaders c (shader_at m) pc shs")
      case None
      then show ?thesis using assms(3,4) Some by simp
    next
      case sc: (Some r)
      show ?thesis using assms(3,4) Some sc t by (cases r) simp_all
    qed
  qed
next
  case (Cons x xs)
  then show ?case by simp
qed

lemma find_arenas_unique_hit:
  assumes "\<forall>x\<in>set apre. \<forall>y\<in>set (entries x). \<not> block_hit x y pc"
    and "\<forall>x\<in>set apost. \<forall>y\<in>set (entries x). \<not> block_hit x y pc"
  shows "find_arenas c m pc (apre @ a # apost) = find_blocks c m pc a (entries a)"
  using assms(1)
proof (induction apre)
  case Nil
  have t: "find_arenas c m pc apost = Some None" by (rule find_arenas_miss[OF assms(2)])
  show ?case
  proof (cases "find_blocks c m pc a (entries a)")
    case None
    then show ?thesis by simp
  next
    case (Some r)
    then show ?thesis using t by (cases r) simp_all
  qed
next
  case (Cons x xs)
  then have "find_blocks c m pc x (entries x) = Some None" by (simp add: find_blocks_miss)
  with Cons show ?case by simp
qed

lemma find_shader_at_block:
  assumes inv: "dev_inv c dev"
    and w: "\<forall>a\<in>set (shader_arenas dev). bo_va (bo a) + bo_size (bo a) < 2 ^ 64"
    and a: "a \<in> set (shader_arenas dev)" and b: "b \<in> set (entries a)"
    and fl: "freelist b = Unlinked p" and bc: "block_contains a b pc"
  shows "radv_find_shader c m dev pc =
           (case pipeline_at m p of None \<Rightarrow> None
            | Some shs \<Rightarrow> scan_shaders c (shader_at m) pc shs)"
proof -
  have hit: "block_hit a' b' pc \<longleftrightarrow> freelist b' \<noteq> Linked \<and> block_contains a' b' pc"
    if "a' \<in> set (shader_arenas dev)" "b' \<in> set (entries a')" for a' b'
  proof -
    have t: "arena_tiles a'" using dev_invD(1)[OF inv that(1)] by (simp add: arena_inv_def)
    from w that(1) have "bo_va (bo a') + bo_size (bo a') < 2 ^ 64" by blast
    then show ?thesis by (rule block_hit_contains[OF t that(2)])
  qed
  have same: "blk b' = blk b"
    if "a' \<in> set (shader_arenas dev)" "b' \<in> set (entries a')" "block_hit a' b' pc" for a' b'
  proof -
    from hit[OF that(1,2)] that(3) have "block_contains a' b' pc" by simp
    from containing_block_unique[OF inv a that(1) b that(2) bc this] show ?thesis .
  qed
  from a obtain apre apost where ar: "shader_arenas dev = apre @ a # apost"
    by (auto dest: split_list)
  from b obtain pre post where es: "entries a = pre @ b # post" by (auto dest: split_list)
  have d: "distinct (map blk (all_blocks (apre @ a # apost)))"
    using dev_invD(2)[OF inv] unfolding ar by (simp only: distinct_append)
  note dp = distinct_arena_parts[OF d]
  have bin: "blk b \<in> blk ` set (entries a)" using b by simp
  have other: "\<not> block_hit x y pc" if "x \<in> set (apre @ apost)" "y \<in> set (entries x)" for x y
  proof
    assume h: "block_hit x y pc"
    have xin: "x \<in> set (shader_arenas dev)" using that(1) ar by auto
    from same[OF xin that(2) h] have e: "blk y = blk b" .
    have "y \<in> set (all_blocks (apre @ apost))" using that by (auto simp: all_blocks_def)
    then have "blk y \<in> blk ` set (all_blocks (apre @ apost))" by simp
    with e bin dp(2) show False by auto
  qed
  have o1: "\<forall>x\<in>set apre. \<forall>y\<in>set (entries x). \<not> block_hit x y pc" using other by simp
  have o2: "\<forall>x\<in>set apost. \<forall>y\<in>set (entries x). \<not> block_hit x y pc" using other by simp
  have db: "distinct (map blk (pre @ b # post))" using dp(1) es by simp
  have inner: "\<not> block_hit a y pc" if "y \<in> set pre \<union> set post" for y
  proof
    assume h: "block_hit a y pc"
    have "y \<in> set (entries a)" using that es by auto
    from same[OF a this h] have e: "blk y = blk b" .
    from that have "blk y \<in> blk ` set pre \<union> blk ` set post" by auto
    with db e show False by auto
  qed
  have i1: "\<forall>x\<in>set pre. \<not> block_hit a x pc" using inner by simp
  have i2: "\<forall>x\<in>set post. \<not> block_hit a x pc" using inner by simp
  have hb: "block_hit a b pc" using hit[OF a b] fl bc by simp
  show ?thesis
    unfolding radv_find_shader_def ar find_arenas_unique_hit[OF o1 o2] es
    by (rule find_blocks_unique_hit[OF i1 i2 hb fl])
qed

lemma relist_same:
  assumes "\<forall>j<length fl. j \<noteq> k \<longrightarrow> h \<notin> set (fl ! j)"
  shows "(map (removeAll h) fl)[k := X] = fl[k := X]"
proof (rule nth_equalityI)
  show "length ((map (removeAll h) fl)[k := X]) = length (fl[k := X])" by simp
next
  fix j assume j: "j < length ((map (removeAll h) fl)[k := X])"
  then have jl: "j < length fl" by simp
  show "(map (removeAll h) fl)[k := X] ! j = fl[k := X] ! j"
  proof (cases "j = k")
    case True
    then show ?thesis using jl by simp
  next
    case False
    with assms jl have "h \<notin> set (fl ! j)" by blast
    then show ?thesis using False jl by simp
  qed
qed

lemma reremove:
  assumes "\<forall>l\<in>set L. h \<notin> set l"
  shows "map (removeAll h) (L[k := L ! k @ [h]]) = L"
proof (rule nth_equalityI)
  show "length (map (removeAll h) (L[k := L ! k @ [h]])) = length L" by simp
next
  fix j assume "j < length (map (removeAll h) (L[k := L ! k @ [h]]))"
  then have jl: "j < length L" by simp
  then have n: "h \<notin> set (L ! j)" using assms by simp
  show "map (removeAll h) (L[k := L ! k @ [h]]) ! j = L ! j"
  proof (cases "j = k")
    case True
    then show ?thesis using jl n by simp
  next
    case False
    then show ?thesis using jl n by simp
  qed
qed

lemma removed_everywhere: "\<forall>l\<in>set (map (removeAll h) fl). h \<notin> set l"
  by simp

lemma free_alone_lists:
  assumes inv1: "dev_inv c dev1"
    and ar: "shader_arenas dev1 = apre @ a1 # apost"
    and es: "entries a1 = pre @ ablk # post"
    and nl: "freelist ablk \<noteq> Linked"
    and np: "pre \<noteq> [] \<longrightarrow> freelist (last pre) \<noteq> Linked"
    and nn: "post \<noteq> [] \<longrightarrow> freelist (hd post) \<noteq> Linked"
    and ne: "pre \<noteq> [] \<or> post \<noteq> []"
    and f: "radv_free_shader_memory c dev1 (blk ablk) = Some dev2"
  shows "shader_free_lists dev2 =
           (shader_free_lists dev1)[get_size_class c (size_b ablk) False :=
              shader_free_lists dev1 ! get_size_class c (size_b ablk) False @ [blk ablk]]"
proof -
  have d: "distinct (map blk (all_blocks (apre @ a1 # apost)))"
    using dev_invD(2)[OF inv1] unfolding ar by (simp only: distinct_append)
  have loc: "locate (shader_arenas dev1) (blk ablk) = Some (apre, a1, apost, pre, ablk, post)"
    unfolding ar by (rule locate_unique[OF d es])
  have mp: "merge_prev c (pre, ablk, dev1) = (pre, ablk, dev1)"
    by (rule merge_prev_none) (use np in simp)
  have mn: "merge_next c (post, ablk, dev1) = (post, ablk, dev1)"
    by (rule merge_next_none) (use nn in simp)
  have "radv_free_shader_memory c dev1 (blk ablk) =
     Some ((add_hole c dev1 ablk)
                \<lparr>shader_arenas :=
                   apre @ a1\<lparr>entries := pre @ ablk\<lparr>freelist := Linked\<rparr> # post\<rparr> # apost\<rparr>)"
    unfolding radv_free_eq[OF loc nl mp mn] using ne by auto
  with f have "dev2 = (add_hole c dev1 ablk)
                \<lparr>shader_arenas :=
                   apre @ a1\<lparr>entries := pre @ ablk\<lparr>freelist := Linked\<rparr> # post\<rparr> # apost\<rparr>"
    by simp
  then show ?thesis by simp
qed

lemma free_into_next_lists:
  assumes inv1: "dev_inv c dev1"
    and ar: "shader_arenas dev1 = apre @ a1 # apost"
    and es: "entries a1 = pre @ ablk # hn # post"
    and nl: "freelist ablk \<noteq> Linked"
    and hl: "freelist hn = Linked"
    and np: "pre \<noteq> [] \<longrightarrow> freelist (last pre) \<noteq> Linked"
    and ne: "pre \<noteq> [] \<or> post \<noteq> []"
    and f: "radv_free_shader_memory c dev1 (blk ablk) = Some dev2"
  shows "shader_free_lists dev2 =
           (map (removeAll (blk hn)) (shader_free_lists dev1))
             [get_size_class c (u32 (size_b hn + size_b ablk)) False :=
                map (removeAll (blk hn)) (shader_free_lists dev1) !
                  get_size_class c (u32 (size_b hn + size_b ablk)) False @ [blk hn]]"
proof -
  let ?h2 = "hn\<lparr>offset := sub_u32 (offset hn) (size_b ablk),
                 size_b := u32 (size_b hn + size_b ablk)\<rparr>"
  let ?d2 = "free_block_obj (remove_hole c dev1 hn) (blk ablk)"
  have d: "distinct (map blk (all_blocks (apre @ a1 # apost)))"
    using dev_invD(2)[OF inv1] unfolding ar by (simp only: distinct_append)
  have loc: "locate (shader_arenas dev1) (blk ablk) = Some (apre, a1, apost, pre, ablk, hn # post)"
    unfolding ar by (rule locate_unique[OF d es])
  have mp: "merge_prev c (pre, ablk, dev1) = (pre, ablk, dev1)"
    by (rule merge_prev_none) (use np in simp)
  have mn: "merge_next c (hn # post, ablk, dev1) = (post, ?h2, ?d2)"
    by (rule merge_next_some[OF hl])
  have l: "?h2\<lparr>freelist := Linked\<rparr> = ?h2" using hl by simp
  have "radv_free_shader_memory c dev1 (blk ablk) =
     Some ((add_hole c ?d2 ?h2)
                \<lparr>shader_arenas := apre @ a1\<lparr>entries := pre @ ?h2 # post\<rparr> # apost\<rparr>)"
    unfolding radv_free_eq[OF loc nl mp mn] l using ne by auto
  with f have "dev2 = (add_hole c ?d2 ?h2)
                \<lparr>shader_arenas := apre @ a1\<lparr>entries := pre @ ?h2 # post\<rparr> # apost\<rparr>"
    by simp
  then show ?thesis by (simp add: free_block_obj_def)
qed

lemma free_only_lists:
  assumes inv1: "dev_inv c dev1"
    and ar: "shader_arenas dev1 = apre @ a1 # apost"
    and es: "entries a1 = [] @ ablk # post"
    and nl: "freelist ablk \<noteq> Linked"
    and po: "post = [] \<or> (\<exists>hn. post = [hn] \<and> freelist hn = Linked)"
    and f: "radv_free_shader_memory c dev1 (blk ablk) = Some dev2"
  shows "shader_free_lists dev2 =
           (case post of [] \<Rightarrow> shader_free_lists dev1
            | hn # _ \<Rightarrow> map (removeAll (blk hn)) (shader_free_lists dev1))"
proof -
  have d: "distinct (map blk (all_blocks (apre @ a1 # apost)))"
    using dev_invD(2)[OF inv1] unfolding ar by (simp only: distinct_append)
  have loc: "locate (shader_arenas dev1) (blk ablk) = Some (apre, a1, apost, [], ablk, post)"
    unfolding ar by (rule locate_unique[OF d es])
  have mp: "merge_prev c ([], ablk, dev1) = ([], ablk, dev1)" by simp
  from po show ?thesis
  proof
    assume p: "post = []"
    have mn: "merge_next c (post, ablk, dev1) = ([], ablk, dev1)" unfolding p by simp
    from f have "dev2 = (buffer_destroy (free_block_obj dev1 (blk ablk)) (bo a1))\<lparr>shader_arenas := apre @ apost\<rparr>"
      unfolding radv_free_eq[OF loc nl mp mn] by simp
    then show ?thesis using p by (simp add: buffer_destroy_def free_block_obj_def)
  next
    assume "\<exists>hn. post = [hn] \<and> freelist hn = Linked"
    then obtain hn where p: "post = [hn]" and hl: "freelist hn = Linked" by blast
    let ?h2 = "hn\<lparr>offset := sub_u32 (offset hn) (size_b ablk),
                 size_b := u32 (size_b hn + size_b ablk)\<rparr>"
    let ?d2 = "free_block_obj (remove_hole c dev1 hn) (blk ablk)"
    have mn: "merge_next c (post, ablk, dev1) = ([], ?h2, ?d2)"
      unfolding p by (rule merge_next_some[OF hl])
    from f have "dev2 = (buffer_destroy (free_block_obj ?d2 (blk ?h2)) (bo a1))\<lparr>shader_arenas := apre @ apost\<rparr>"
      unfolding radv_free_eq[OF loc nl mp mn] by simp
    then show ?thesis using p by (simp add: buffer_destroy_def free_block_obj_def)
  qed
qed

lemma hole_only_in_class:
  assumes inv: "dev_inv c dev"
    and loc: "locate (shader_arenas dev) h = Some (apre, a, apost, pre, hole, post)"
  shows "\<forall>j<length (shader_free_lists dev).
           j \<noteq> get_size_class c (size_b hole) False \<longrightarrow> h \<notin> set (shader_free_lists dev ! j)"
proof (intro allI impI)
  fix j assume j: "j < length (shader_free_lists dev)" and ne: "j \<noteq> get_size_class c (size_b hole) False"
  from dev_invD(4)[OF inv] j have jn: "j < ALLOC_NUM_FREE_LISTS c" by (simp add: lists_ok_def)
  show "h \<notin> set (shader_free_lists dev ! j)"
  proof
    assume "h \<in> set (shader_free_lists dev ! j)"
    from listed_hole(2)[OF inv jn this loc] ne show False by simp
  qed
qed

lemma not_listed:
  assumes inv: "dev_inv c dev" and n: "p \<notin> blk ` set (all_blocks (shader_arenas dev))"
  shows "\<forall>l\<in>set (shader_free_lists dev). p \<notin> set l"
proof
  fix l assume "l \<in> set (shader_free_lists dev)"
  then obtain j where j: "j < length (shader_free_lists dev)" and l: "l = shader_free_lists dev ! j"
    by (auto simp: in_set_conv_nth)
  from dev_invD(4)[OF inv] j have "set l = hole_ptrs c (all_blocks (shader_arenas dev)) j"
    by (simp add: lists_ok_def l)
  with hole_ptrs_notin[OF n] show "p \<notin> set l" by simp
qed

lemma alloc_new_arena_lists:
  assumes "alloc_new_arena c e dev sz ptr = (Some al, dev1)"
  shows "\<exists>a post. shader_arenas dev1 = shader_arenas dev @ [a] \<and>
           shader_arena_shift dev1 = shader_arena_shift dev + 1 \<and>
           entries a = \<lparr>blk = al, offset = 0, size_b = sz, freelist = Unlinked ptr\<rparr> # post \<and>
           (post = [] \<and> shader_free_lists dev1 = shader_free_lists dev \<or>
            (\<exists>hn. post = [hn] \<and> freelist hn = Linked \<and>
               shader_free_lists dev1 =
                 (shader_free_lists dev)[get_size_class c (size_b hn) False :=
                    shader_free_lists dev ! get_size_class c (size_b hn) False @ [blk hn]]))"
proof (cases "env_calloc e")
  case None
  then show ?thesis using assms by (simp add: alloc_new_arena_fail1)
next
  case (Some ar)
  show ?thesis
  proof (cases "env_buffer_create e")
    case None
    then show ?thesis using assms Some by (simp add: alloc_new_arena_fail1)
  next
    case cr0: (Some hv)
    obtain h va where hv: "hv = (h, va)" by (cases hv)
    note cr = cr0[unfolded hv]
    show ?thesis
    proof (cases "env_buffer_map e")
      case False
      show ?thesis using assms unfolding alloc_new_arena_fail2[OF Some cr False] by auto
    next
      case True
      show ?thesis
      proof (cases "sz < arena_size_of c dev sz")
        case big: True
        show ?thesis
        proof (cases "first_obj dev e = None \<or> second_obj dev e = None")
          case True
          show ?thesis using assms
            unfolding alloc_new_arena_fail3[OF Some cr \<open>env_buffer_map e\<close> big True] by auto
        next
          case False
          then obtain alp ho where f: "first_obj dev e = Some alp" and s: "second_obj dev e = Some ho"
            by auto
          show ?thesis
          proof (cases "ho = alp")
            case True
            show ?thesis using assms
              unfolding alloc_new_arena_same[OF Some cr \<open>env_buffer_map e\<close> big f s[unfolded True]] by auto
          next
            case False
            show ?thesis using assms
              unfolding alloc_new_arena_two[OF Some cr \<open>env_buffer_map e\<close> big f s False]
              by auto
          qed
        qed
      next
        case small: False
        show ?thesis
        proof (cases "first_obj dev e")
          case None
          show ?thesis using assms
            unfolding alloc_new_arena_fail4[OF Some cr \<open>env_buffer_map e\<close> small None] by auto
        next
          case (Some alp)
          show ?thesis using assms
            unfolding alloc_new_arena_one[OF \<open>env_calloc e = Some ar\<close> cr \<open>env_buffer_map e\<close> small Some] by auto
        qed
      qed
    qed
  qed
qed

lemma roundtrip_lists_exact:
  assumes inv: "dev_inv c dev" and inv1: "dev_inv c dev1"
    and loc: "locate (shader_arenas dev) h = Some (apre, a, apost, pre, hole, post)"
    and hl: "freelist hole = Linked"
    and k: "get_size_class c (size_b hole) False = k" "k < length (shader_free_lists dev)"
    and al: "alloc_from_hole c e dev (size_b hole) ptr h = Some (r, dev1)"
    and f: "radv_free_shader_memory c dev1 h = Some dev2"
  shows "shader_free_lists dev2 =
           (shader_free_lists dev)[k := removeAll h (shader_free_lists dev ! k) @ [h]]"
proof -
  let ?ablk = "hole\<lparr>freelist := Unlinked ptr\<rparr>"
  let ?a1 = "a\<lparr>entries := pre @ ?ablk # post\<rparr>"
  note ar = locate_SomeD(1)[OF loc] and es = locate_SomeD(2)[OF loc] and bh = locate_SomeD(3)[OF loc]
  from al have d1: "dev1 = (remove_hole c dev hole)\<lparr>shader_arenas := apre @ ?a1 # apost\<rparr>"
    unfolding alloc_from_hole_exact[OF loc refl] by simp
  have ar1: "shader_arenas dev1 = apre @ ?a1 # apost" by (simp add: d1)
  have l1: "shader_free_lists dev1 = map (removeAll h) (shader_free_lists dev)"
    by (simp add: d1 bh)
  have es1: "entries ?a1 = pre @ ?ablk # post" by simp
  have nl: "freelist ?ablk \<noteq> Linked" by simp
  have "a \<in> set (shader_arenas dev)" by (simp add: ar)
  then have co: "arena_coalesced a" using dev_invD(1)[OF inv] by (simp add: arena_inv_def)
  note nb = hole_neighbours[OF co es hl]
  have f': "radv_free_shader_memory c dev1 (blk ?ablk) = Some dev2" using f bh by simp
  have "shader_free_lists dev2 =
          (map (removeAll h) (shader_free_lists dev))[k :=
             map (removeAll h) (shader_free_lists dev) ! k @ [h]]"
    using free_alone_lists[OF inv1 ar1 es1 nl nb f'] by (simp add: l1 k(1) bh)
  also have "\<dots> = (map (removeAll h) (shader_free_lists dev))[k :=
             removeAll h (shader_free_lists dev ! k) @ [h]]"
    using k(2) by simp
  also have "\<dots> = (shader_free_lists dev)[k := removeAll h (shader_free_lists dev ! k) @ [h]]"
    by (rule relist_same) (use hole_only_in_class[OF inv loc] k(1) in simp)
  finally show ?thesis .
qed

lemma roundtrip_lists_split:
  assumes ok: "consts_ok c" and inv: "dev_inv c dev" and inv1: "dev_inv c dev1"
    and loc: "locate (shader_arenas dev) h = Some (apre, a, apost, pre, hole, post)"
    and hl: "freelist hole = Linked"
    and k: "get_size_class c (size_b hole) False = k" "k < length (shader_free_lists dev)"
    and le: "sz \<le> size_b hole" and ne: "sz \<noteq> size_b hole"
    and fo: "first_obj dev e = Some alp"
    and al: "alloc_from_hole c e dev sz ptr h = Some (r, dev1)"
    and f: "radv_free_shader_memory c dev1 alp = Some dev2"
  shows "shader_free_lists dev2 =
           (shader_free_lists dev)[k := removeAll h (shader_free_lists dev ! k) @ [h]]"
proof -
  let ?ablk = "\<lparr>blk = alp, offset = offset hole, size_b = sz, freelist = Unlinked ptr\<rparr>"
  let ?hn = "hole\<lparr>offset := u32 (offset hole + sz), size_b := sub_u32 (size_b hole) sz\<rparr>"
  let ?a1 = "a\<lparr>entries := pre @ ?ablk # ?hn # post\<rparr>"
  let ?L = "map (removeAll h) (shader_free_lists dev)"
  let ?k' = "get_size_class c (sub_u32 (size_b hole) sz) False"
  note ar = locate_SomeD(1)[OF loc] and es = locate_SomeD(2)[OF loc] and bh = locate_SomeD(3)[OF loc]
  from al have ar1: "shader_arenas dev1 = apre @ ?a1 # apost"
    and l1: "shader_free_lists dev1 = ?L[?k' := ?L ! ?k' @ [h]]"
    unfolding alloc_from_hole_split[OF loc ne fo] by (auto simp: bh)
  have es1: "entries ?a1 = pre @ ?ablk # ?hn # post" by simp
  have nl: "freelist ?ablk \<noteq> Linked" by simp
  have hnl: "freelist ?hn = Linked" using hl by simp
  have "a \<in> set (shader_arenas dev)" by (simp add: ar)
  then have co: "arena_coalesced a" and ti: "arena_tiles a"
    using dev_invD(1)[OF inv] by (simp_all add: arena_inv_def)
  note nb = hole_neighbours[OF co es hl]
  note sa = split_arith[OF ti es le]
  have b: "offset hole + size_b hole < 2 ^ 32"
    using arena_tiles_D(2,4,5)[OF ti es] by linarith
  have s: "u32 (size_b ?hn + size_b ?ablk) = size_b hole"
  proof -
    have "u32 (size_b hole) = size_b hole" by (rule u32_id) (use b in simp)
    then show ?thesis using le by (simp add: sa)
  qed
  have f': "radv_free_shader_memory c dev1 (blk ?ablk) = Some dev2" using f by simp
  have rr: "map (removeAll h) (?L[?k' := ?L ! ?k' @ [h]]) = ?L"
    by (rule reremove) simp
  have "shader_free_lists dev2 = ?L[k := ?L ! k @ [h]]"
    using free_into_next_lists[OF inv1 ar1 es1 nl hnl nb(1) nb(3) f']
    unfolding s l1 by (simp add: bh rr k(1))
  also have "\<dots> = ?L[k := removeAll h (shader_free_lists dev ! k) @ [h]]"
    using k(2) by simp
  also have "\<dots> = (shader_free_lists dev)[k := removeAll h (shader_free_lists dev ! k) @ [h]]"
    by (rule relist_same) (use hole_only_in_class[OF inv loc] k(1) in simp)
  finally show ?thesis .
qed

lemma roundtrip_lists_new:
  assumes inv: "dev_inv c dev" and inv1: "dev_inv c dev1"
    and new: "alloc_new_arena c e dev sz ptr = (Some alp, dev1)"
    and f: "radv_free_shader_memory c dev1 alp = Some dev2"
  shows "shader_free_lists dev2 = shader_free_lists dev"
    and "shader_arena_shift dev2 = shader_arena_shift dev + 1"
proof -
  let ?ablk = "\<lparr>blk = alp, offset = 0, size_b = sz, freelist = Unlinked ptr\<rparr>"
  from alloc_new_arena_lists[OF new] obtain a post where
    ar1: "shader_arenas dev1 = shader_arenas dev @ a # []"
    and sh: "shader_arena_shift dev1 = shader_arena_shift dev + 1"
    and es1: "entries a = [] @ ?ablk # post"
    and po: "post = [] \<and> shader_free_lists dev1 = shader_free_lists dev \<or>
            (\<exists>hn. post = [hn] \<and> freelist hn = Linked \<and>
               shader_free_lists dev1 =
                 (shader_free_lists dev)[get_size_class c (size_b hn) False :=
                    shader_free_lists dev ! get_size_class c (size_b hn) False @ [blk hn]])"
    by auto
  show "shader_arena_shift dev2 = shader_arena_shift dev + 1"
    using free_shift[OF f] sh by simp
  have nl: "freelist ?ablk \<noteq> Linked" by simp
  have po': "post = [] \<or> (\<exists>hn. post = [hn] \<and> freelist hn = Linked)" using po by blast
  have f': "radv_free_shader_memory c dev1 (blk ?ablk) = Some dev2" using f by simp
  note fl = free_only_lists[OF inv1 ar1 es1 nl po' f']
  from po show "shader_free_lists dev2 = shader_free_lists dev"
  proof
    assume "post = [] \<and> shader_free_lists dev1 = shader_free_lists dev"
    then show ?thesis using fl by simp
  next
    assume "\<exists>hn. post = [hn] \<and> freelist hn = Linked \<and>
               shader_free_lists dev1 =
                 (shader_free_lists dev)[get_size_class c (size_b hn) False :=
                    shader_free_lists dev ! get_size_class c (size_b hn) False @ [blk hn]]"
    then obtain hn where p: "post = [hn]"
      and l1: "shader_free_lists dev1 =
                 (shader_free_lists dev)[get_size_class c (size_b hn) False :=
                    shader_free_lists dev ! get_size_class c (size_b hn) False @ [blk hn]]"
      by blast
    have d: "distinct (map blk (all_blocks (shader_arenas dev @ a # [])))"
      using dev_invD(2)[OF inv1] unfolding ar1 by (simp only: distinct_append)
    have "blk hn \<in> blk ` set (entries a)" using es1 p by simp
    with distinct_arena_parts(2)[OF d]
    have "blk hn \<notin> blk ` set (all_blocks (shader_arenas dev))" by auto
    from not_listed[OF inv this]
    have "map (removeAll (blk hn)) (shader_free_lists dev1) = shader_free_lists dev"
      unfolding l1 by (rule reremove)
    then show ?thesis using fl p by simp
  qed
qed

lemma locate_ex3:
  "locate (shader_arenas ex_dev3) 3 =
     Some ([], hd (shader_arenas ex_dev3), [], [\<lparr>blk = 1, offset = 0, size_b = 256, freelist = Linked\<rparr>],
           \<lparr>blk = 3, offset = 256, size_b = 512, freelist = Unlinked 8\<rparr>,
           [\<lparr>blk = 2, offset = 768, size_b = 261376, freelist = Linked\<rparr>])"
  by (simp add: locate_def block_ptrs_def ex_dev3_def)

lemma class_ex2:
  "get_size_class radv_consts 768 False = 1"
  "get_size_class radv_consts 262144 False = 7"
  by (simp_all add: get_size_class_def ulog_simps)

lemma free_ex6: "radv_free_shader_memory radv_consts ex_dev3 3 = Some ex_dev7"
proof -
  let ?b1 = "\<lparr>blk = 1, offset = 0, size_b = 256, freelist = Linked\<rparr>"
  let ?b3 = "\<lparr>blk = 3, offset = 256, size_b = 512, freelist = Unlinked 8\<rparr>"
  let ?b2 = "\<lparr>blk = 2, offset = 768, size_b = 261376, freelist = Linked\<rparr>"
  let ?h1 = "\<lparr>blk = 1, offset = 0, size_b = 768, freelist = Linked\<rparr>"
  let ?h2 = "\<lparr>blk = 2, offset = 0, size_b = 262144, freelist = Linked\<rparr>"
  let ?d1 = "free_block_obj (remove_hole radv_consts ex_dev3 ?b1) 3"
  let ?d2 = "free_block_obj (remove_hole radv_consts ?d1 ?b2) 1"
  have nl: "freelist ?b3 \<noteq> Linked" by simp
  have mp: "merge_prev radv_consts ([?b1], ?b3, ex_dev3) = ([], ?h1, ?d1)"
    by (simp add: merge_prev_def get_hole_def last_opt_def u32_def)
  have mn: "merge_next radv_consts ([?b2], ?h1, ?d1) = ([], ?h2, ?d2)"
    by (simp add: merge_next_def get_hole_def hd_opt_def u32_def sub_u32_def)
  show ?thesis
    unfolding radv_free_eq[OF locate_ex3 nl mp mn]
    by (simp add: buffer_destroy_def free_block_obj_def remove_hole_def class_ex class_ex2 ex_dev3_def
        ex_dev7_def ex_bo1_def)
qed

lemma reachable_dev7: "reachable radv_consts ex_dev7"
  by (rule reach_free[OF reachable_dev3 free_ex6])

lemma locate_ex5:
  "locate (shader_arenas ex_dev5) 2 =
     Some ([], hd (shader_arenas ex_dev5), tl (shader_arenas ex_dev5),
           [\<lparr>blk = 1, offset = 0, size_b = 256, freelist = Unlinked 7\<rparr>],
           \<lparr>blk = 2, offset = 256, size_b = 261888, freelist = Linked\<rparr>, [])"
  by (simp add: locate_def block_ptrs_def ex_dev5_def)

lemma search_ex5: "search_word radv_consts ex_dev5 512 = 128"
  by (simp add: search_word_def class_ex ex_dev5_def bfm8)

lemma alloc_ex5: "radv_alloc_shader_memory radv_consts ex_env5 ex_dev5 512 8 = Some (Some 5, ex_dev8)"
proof -
  have f: "first_obj ex_dev5 ex_env5 = Some 5"
    by (simp add: first_obj_eq ex_dev5_def ex_env5_def)
  have ne: "512 \<noteq> size_b \<lparr>blk = 2, offset = 256, size_b = 261888, freelist = Linked\<rparr>" by simp
  have sz: "align_u32 512 (ALLOC_ALIGNMENT radv_consts) = 512" by (simp add: align_ex)
  have 1: "ffs (search_word radv_consts ex_dev5 (align_u32 512 (ALLOC_ALIGNMENT radv_consts))) = Suc 7"
    unfolding sz by (simp add: search_ex5 ffs_ex)
  have 2: "7 < length (shader_free_lists ex_dev5)" by (simp add: ex_dev5_def)
  have l: "shader_free_lists ex_dev5 ! 7 = [2, 4]" by (simp add: ex_dev5_def)
  have 3: "find_fit (shader_arenas ex_dev5) (align_u32 512 (ALLOC_ALIGNMENT radv_consts))
             (shader_free_lists ex_dev5 ! 7) = Some (Some 2)"
    unfolding sz l by (simp add: locate_ex5)
  show ?thesis
    unfolding radv_alloc_hole_path[OF 1 2 3] sz alloc_from_hole_split[OF locate_ex5 ne f]
    by (simp add: add_hole_def remove_hole_def class_ex u32_def sub_u32_def ex_dev5_def ex_dev8_def)
qed

lemma env_ok_ex5: "env_ok radv_consts ex_dev5 512 ex_env5"
  by (simp add: env_ok_def ex_dev5_def ex_env5_def align_ex arena_size_of_def u32_def bo_disjoint_def
      ex_bo1_def ex_bo2_def all_blocks_def)

lemma reachable_dev8: "reachable radv_consts ex_dev8"
  by (rule reach_alloc[OF reachable_dev5 env_ok_ex5 alloc_ex5])

lemma locate_ex8:
  "locate (shader_arenas ex_dev8) 5 =
     Some ([], hd (shader_arenas ex_dev8), tl (shader_arenas ex_dev8),
           [\<lparr>blk = 1, offset = 0, size_b = 256, freelist = Unlinked 7\<rparr>],
           \<lparr>blk = 5, offset = 256, size_b = 512, freelist = Unlinked 8\<rparr>,
           [\<lparr>blk = 2, offset = 768, size_b = 261376, freelist = Linked\<rparr>])"
  by (simp add: locate_def block_ptrs_def ex_dev8_def)

lemma free_ex5: "radv_free_shader_memory radv_consts ex_dev8 5 = Some ex_dev9"
proof -
  let ?b1 = "\<lparr>blk = 1, offset = 0, size_b = 256, freelist = Unlinked 7\<rparr>"
  let ?b5 = "\<lparr>blk = 5, offset = 256, size_b = 512, freelist = Unlinked 8\<rparr>"
  let ?b2 = "\<lparr>blk = 2, offset = 768, size_b = 261376, freelist = Linked\<rparr>"
  let ?h2 = "\<lparr>blk = 2, offset = 256, size_b = 261888, freelist = Linked\<rparr>"
  have nl: "freelist ?b5 \<noteq> Linked" by simp
  have mp: "merge_prev radv_consts ([?b1], ?b5, ex_dev8) = ([?b1], ?b5, ex_dev8)"
    by (simp add: merge_prev_def get_hole_def last_opt_def)
  have mn: "merge_next radv_consts ([?b2], ?b5, ex_dev8) =
      ([], ?h2, free_block_obj (remove_hole radv_consts ex_dev8 ?b2) 5)"
    by (simp add: merge_next_def get_hole_def hd_opt_def u32_def sub_u32_def)
  show ?thesis
    unfolding radv_free_eq[OF locate_ex8 nl mp mn]
    by (simp add: add_hole_def remove_hole_def free_block_obj_def class_ex ex_dev8_def ex_dev9_def)
qed

lemma free_calls_ex: "free_calls radv_consts ex_dev2 [1, 3] = Some ex_dev7"
proof -
  have "free_calls radv_consts ex_dev2 [1, 3] = free_calls radv_consts ex_dev3 [3]"
    unfolding free_calls.simps free_ex2 by simp
  also have "\<dots> = Some ex_dev7" unfolding free_calls.simps free_ex6 by simp
  finally show ?thesis .
qed

lemma merge_prev_shape:
  assumes t: "arena_tiles (a\<lparr>entries := pre @ hole # post\<rparr>)"
    and mp: "merge_prev c (pre, hole, dev) = (pre1, hole1, dev1)"
  shows "\<exists>lp. pre = pre1 @ lp \<and> length lp \<le> 1 \<and> (\<forall>b\<in>set lp. freelist b = Linked) \<and>
           (pre1 @ lp \<noteq> [] \<and> lp = [] \<longrightarrow> freelist (last pre1) \<noteq> Linked) \<and>
           offset hole1 = offset (hd (lp @ [hole])) \<and>
           size_b hole1 = sum_list (map size_b (lp @ [hole])) \<and>
           blk hole1 = blk (hd (lp @ [hole]))"
proof (cases "get_hole (last_opt pre)")
  case None
  then have r: "pre1 = pre" "hole1 = hole" using mp by (simp_all add: merge_prev_def)
  from None have "pre \<noteq> [] \<longrightarrow> freelist (last pre) \<noteq> Linked" by (simp add: get_hole_last_None)
  then show ?thesis using r by (intro exI[of _ "[]"]) simp
next
  case (Some hp)
  then have pre: "pre = butlast pre @ [hp]" and hl: "freelist hp = Linked"
    unfolding get_hole_last_Some by simp_all
  have r: "pre1 = butlast pre" "hole1 = hp\<lparr>size_b := u32 (size_b hp + size_b hole)\<rparr>"
    using mp Some by (simp_all add: merge_prev_def)
  have t': "arena_tiles (a\<lparr>entries := butlast pre @ hp # hole # post\<rparr>)"
    using t by (subst (asm) pre) simp
  note ma = merge_arith(1)[OF t']
  have "pre = pre1 @ [hp]" using pre r(1) by simp
  then show ?thesis using r hl ma by (intro exI[of _ "[hp]"]) simp
qed

lemma merge_next_shape:
  assumes t: "arena_tiles (a\<lparr>entries := pre @ hole # post\<rparr>)"
    and mn: "merge_next c (post, hole, dev) = (post2, hole2, dev2)"
  shows "\<exists>ln. post = ln @ post2 \<and> length ln \<le> 1 \<and> (\<forall>b\<in>set ln. freelist b = Linked) \<and>
           (ln @ post2 \<noteq> [] \<and> ln = [] \<longrightarrow> freelist (hd post2) \<noteq> Linked) \<and>
           offset hole2 = offset hole \<and>
           size_b hole2 = sum_list (map size_b (hole # ln)) \<and>
           blk hole2 = blk (last (hole # ln))"
proof (cases "get_hole (hd_opt post)")
  case None
  then have r: "post2 = post" "hole2 = hole" using mn by (simp_all add: merge_next_def)
  from None have "post \<noteq> [] \<longrightarrow> freelist (hd post) \<noteq> Linked" by (simp add: get_hole_hd_None)
  then show ?thesis using r by (intro exI[of _ "[]"]) simp
next
  case (Some hn)
  then have post: "post = hn # tl post" and hl: "freelist hn = Linked"
    unfolding get_hole_hd_Some by simp_all
  have r: "post2 = tl post"
    "hole2 = hn\<lparr>offset := sub_u32 (offset hn) (size_b hole), size_b := u32 (size_b hn + size_b hole)\<rparr>"
    using mn Some by (simp_all add: merge_next_def)
  have t': "arena_tiles (a\<lparr>entries := pre @ hole # hn # tl post\<rparr>)"
    using t by (subst (asm) post) simp
  note ma = merge_arith[OF t']
  have c: "size_b hn + size_b hole = size_b hole + size_b hn" by simp
  have "post = [hn] @ post2" using post r(1) by simp
  then show ?thesis using r hl ma unfolding c by (intro exI[of _ "[hn]"]) simp
qed

lemma free_result:
  assumes ok: "consts_ok c" and inv: "dev_inv c dev"
    and loc: "locate (shader_arenas dev) p = Some (apre, a, apost, pre, alloc, post)"
    and nl: "freelist alloc \<noteq> Linked"
  shows "\<exists>dev' lp pre1 ln post2.
           radv_free_shader_memory c dev p = Some dev' \<and>
           pre = pre1 @ lp \<and> post = ln @ post2 \<and> length lp \<le> 1 \<and> length ln \<le> 1 \<and>
           (\<forall>b\<in>set lp \<union> set ln. freelist b = Linked) \<and>
           (pre1 \<noteq> [] \<longrightarrow> freelist (last pre1) \<noteq> Linked) \<and>
           (post2 \<noteq> [] \<longrightarrow> freelist (hd post2) \<noteq> Linked) \<and>
           (if pre1 = [] \<and> post2 = [] then
              shader_arenas dev' = apre @ apost \<and> ws dev' = removeAll (bo a) (ws dev) \<and>
              set (shader_block_obj_pool dev') = set (shader_block_obj_pool dev) \<union> blk ` set (entries a)
            else
              (\<exists>h. shader_arenas dev' = apre @ a\<lparr>entries := pre1 @ h # post2\<rparr> # apost \<and>
                 ws dev' = ws dev \<and> freelist h = Linked \<and>
                 offset h = offset (hd (lp @ [alloc])) \<and>
                 size_b h = sum_list (map size_b (lp @ alloc # ln)) \<and>
                 blk h = blk (last (hd (lp @ [alloc]) # ln)) \<and>
                 set (shader_block_obj_pool dev') \<union> blk ` set (pre1 @ h # post2) =
                   set (shader_block_obj_pool dev) \<union> blk ` set (entries a)))"
proof -
  note es = locate_SomeD(2)[OF loc]
  obtain pre1 hole1 dev1 where mp: "merge_prev c (pre, alloc, dev) = (pre1, hole1, dev1)"
    by (cases "merge_prev c (pre, alloc, dev)")
  obtain post2 hole2 dev2 where mn: "merge_next c (post, hole1, dev1) = (post2, hole2, dev2)"
    by (cases "merge_next c (post, hole1, dev1)")
  note pd0 = pending_init[OF inv loc nl]
  note pd1 = pending_merge_prev[OF pd0 ok mp]
  note pd2 = pending_merge_next[OF pd1(1) ok mn]
  from merge_prev_shape[OF pendingD(1)[OF pd0] mp] obtain lp where
    lp: "pre = pre1 @ lp" "length lp \<le> 1" "\<forall>b\<in>set lp. freelist b = Linked"
      "offset hole1 = offset (hd (lp @ [alloc]))"
      "size_b hole1 = sum_list (map size_b (lp @ [alloc]))"
      "blk hole1 = blk (hd (lp @ [alloc]))"
    by blast
  from merge_next_shape[OF pendingD(1)[OF pd1(1)] mn] obtain ln where
    ln: "post = ln @ post2" "length ln \<le> 1" "\<forall>b\<in>set ln. freelist b = Linked"
      "offset hole2 = offset hole1"
      "size_b hole2 = sum_list (map size_b (hole1 # ln))"
      "blk hole2 = blk (last (hole1 # ln))"
    by blast
  have w: "ws dev2 = ws dev"
    using merge_prev_fields(2)[OF mp] merge_next_fields(2)[OF mn] by simp
  have pool: "set (shader_block_obj_pool dev2) \<union> {blk hole2} \<union> blk ` set post2 \<union> blk ` set pre1 =
      set (shader_block_obj_pool dev) \<union> blk ` set (entries a)"
  proof -
    have "set (shader_block_obj_pool dev2) \<union> {blk hole2} \<union> blk ` set post2 \<union> blk ` set pre1 =
        (set (shader_block_obj_pool dev1) \<union> {blk hole1} \<union> blk ` set post) \<union> blk ` set pre1"
      using merge_next_pool[OF mn] by simp
    also have "\<dots> = (set (shader_block_obj_pool dev1) \<union> {blk hole1} \<union> blk ` set pre1) \<union> blk ` set post"
      by (simp only: Un_ac)
    also have "\<dots> = (set (shader_block_obj_pool dev) \<union> {blk alloc} \<union> blk ` set pre) \<union> blk ` set post"
      using merge_pool[OF mp] by simp
    also have "\<dots> = set (shader_block_obj_pool dev) \<union> blk ` set (pre @ alloc # post)"
      by (simp add: image_Un Un_ac)
    finally show ?thesis unfolding es .
  qed
  have sz: "size_b hole2 = sum_list (map size_b (lp @ alloc # ln))"
    using ln(5) lp(5) by simp
  have bl: "blk hole2 = blk (last (hd (lp @ [alloc]) # ln))"
    using ln(6) lp(6) by (cases ln) simp_all
  have rest: "if pre1 = [] \<and> post2 = [] then
              shader_arenas dev' = apre @ apost \<and> ws dev' = removeAll (bo a) (ws dev) \<and>
              set (shader_block_obj_pool dev') = set (shader_block_obj_pool dev) \<union> blk ` set (entries a)
            else
              (\<exists>h. shader_arenas dev' = apre @ a\<lparr>entries := pre1 @ h # post2\<rparr> # apost \<and>
                 ws dev' = ws dev \<and> freelist h = Linked \<and>
                 offset h = offset (hd (lp @ [alloc])) \<and>
                 size_b h = sum_list (map size_b (lp @ alloc # ln)) \<and>
                 blk h = blk (last (hd (lp @ [alloc]) # ln)) \<and>
                 set (shader_block_obj_pool dev') \<union> blk ` set (pre1 @ h # post2) =
                   set (shader_block_obj_pool dev) \<union> blk ` set (entries a))"
    if f: "radv_free_shader_memory c dev p = Some dev'" for dev'
  proof (cases "pre1 = [] \<and> post2 = []")
    case True
    from f have d: "dev' = (buffer_destroy (free_block_obj dev2 (blk hole2)) (bo a))\<lparr>shader_arenas := apre @ apost\<rparr>"
      unfolding radv_free_eq[OF loc nl mp mn] using True by simp
    have a1: "shader_arenas dev' = apre @ apost" "ws dev' = removeAll (bo a) (ws dev)"
      using w unfolding d by (simp_all add: buffer_destroy_def free_block_obj_def)
    have "set (shader_block_obj_pool dev') =
            set (shader_block_obj_pool dev2) \<union> {blk hole2} \<union> blk ` set post2 \<union> blk ` set pre1"
      using True unfolding d by (simp add: buffer_destroy_def free_block_obj_def)
    then have a2: "set (shader_block_obj_pool dev') = set (shader_block_obj_pool dev) \<union> blk ` set (entries a)"
      using pool by simp
    show ?thesis unfolding if_P[OF True] using a1 a2 by (intro conjI)
  next
    case False
    let ?h = "hole2\<lparr>freelist := Linked\<rparr>"
    from f have d: "dev' = (add_hole c dev2 hole2)
                \<lparr>shader_arenas := apre @ a\<lparr>entries := pre1 @ ?h # post2\<rparr> # apost\<rparr>"
      unfolding radv_free_eq[OF loc nl mp mn] using False by auto
    have 1: "shader_arenas dev' = apre @ a\<lparr>entries := pre1 @ ?h # post2\<rparr> # apost"
      "ws dev' = ws dev" unfolding d using w by simp_all
    have 2: "freelist ?h = Linked" "offset ?h = offset (hd (lp @ [alloc]))"
      "size_b ?h = sum_list (map size_b (lp @ alloc # ln))"
      "blk ?h = blk (last (hd (lp @ [alloc]) # ln))"
      using ln(4) lp(4) sz bl by simp_all
    have "set (shader_block_obj_pool dev') \<union> blk ` set (pre1 @ ?h # post2) =
            set (shader_block_obj_pool dev2) \<union> {blk hole2} \<union> blk ` set post2 \<union> blk ` set pre1"
      unfolding d by (simp add: image_Un Un_ac)
    then have 3: "set (shader_block_obj_pool dev') \<union> blk ` set (pre1 @ ?h # post2) =
                   set (shader_block_obj_pool dev) \<union> blk ` set (entries a)"
      using pool by simp
    show ?thesis unfolding if_not_P[OF False]
      apply (rule exI[of _ ?h])
      apply (intro conjI)
      apply (rule 1(1), rule 1(2), rule 2(1), rule 2(2), rule 2(3), rule 2(4), rule 3)
      done
  qed
  from free_defined[OF loc nl] obtain dev' where f: "radv_free_shader_memory c dev p = Some dev'"
    by auto
  have hs: "\<forall>b\<in>set lp \<union> set ln. freelist b = Linked" using lp(3) ln(3) by blast
  have n1: "pre1 \<noteq> [] \<longrightarrow> freelist (last pre1) \<noteq> Linked" using pd1(2) by blast
  have n2: "post2 \<noteq> [] \<longrightarrow> freelist (hd post2) \<noteq> Linked" using pd2(2) by blast
  show ?thesis
    apply (rule exI[of _ dev'], rule exI[of _ lp], rule exI[of _ pre1], rule exI[of _ ln],
           rule exI[of _ post2])
    apply (intro conjI)
    apply (rule f, rule lp(1), rule ln(1), rule lp(2), rule ln(2), rule hs, rule n1, rule n2,
           rule rest[OF f])
    done
qed

lemma allocations_append:
  "blk ` {b \<in> set (xs @ ys). freelist b \<noteq> Linked} =
   blk ` {b \<in> set xs. freelist b \<noteq> Linked} \<union> blk ` {b \<in> set ys. freelist b \<noteq> Linked}"
  by auto

lemma allocations_holes:
  "\<forall>b\<in>set xs. freelist b = Linked \<Longrightarrow> blk ` {b \<in> set xs. freelist b \<noteq> Linked} = {}"
  by auto

lemma filter_other_arenas:
  assumes "distinct (map arena_ptr (apre @ a # apost))"
  shows "filter (\<lambda>x. arena_ptr x \<noteq> arena_ptr a) (apre @ a # apost) = apre @ apost"
    and "arena_ptr a' = arena_ptr a \<Longrightarrow>
         filter (\<lambda>x. arena_ptr x \<noteq> arena_ptr a) (apre @ a' # apost) = apre @ apost"
proof -
  from assms have "arena_ptr a \<notin> arena_ptr ` set apre" "arena_ptr a \<notin> arena_ptr ` set apost"
    by auto
  then have n: "\<forall>x\<in>set apre \<union> set apost. arena_ptr x \<noteq> arena_ptr a" by (metis Un_iff imageI)
  then have f: "filter (\<lambda>x. arena_ptr x \<noteq> arena_ptr a) apre = apre"
    "filter (\<lambda>x. arena_ptr x \<noteq> arena_ptr a) apost = apost"
    by (simp_all add: filter_id_conv)
  show "filter (\<lambda>x. arena_ptr x \<noteq> arena_ptr a) (apre @ a # apost) = apre @ apost"
    using f by simp
  show "arena_ptr a' = arena_ptr a \<Longrightarrow>
         filter (\<lambda>x. arena_ptr x \<noteq> arena_ptr a) (apre @ a' # apost) = apre @ apost"
    using f by simp
qed

lemma allocations_split:
  assumes d: "distinct (map blk (pre1 @ lp @ alloc # ln @ post2))"
    and nl: "freelist alloc \<noteq> Linked"
    and hs: "\<forall>b\<in>set lp \<union> set ln. freelist b = Linked"
  shows "blk ` {b \<in> set (pre1 @ lp @ alloc # ln @ post2). freelist b \<noteq> Linked} =
           insert (blk alloc)
             (blk ` {b \<in> set pre1. freelist b \<noteq> Linked} \<union> blk ` {b \<in> set post2. freelist b \<noteq> Linked})"
    and "blk alloc \<notin> blk ` {b \<in> set pre1. freelist b \<noteq> Linked} \<union>
                      blk ` {b \<in> set post2. freelist b \<noteq> Linked}"
proof -
  show "blk ` {b \<in> set (pre1 @ lp @ alloc # ln @ post2). freelist b \<noteq> Linked} =
           insert (blk alloc)
             (blk ` {b \<in> set pre1. freelist b \<noteq> Linked} \<union> blk ` {b \<in> set post2. freelist b \<noteq> Linked})"
    using nl hs by auto
  from d have "blk alloc \<notin> blk ` set pre1" "blk alloc \<notin> blk ` set post2" by auto
  then have "\<forall>b\<in>set pre1 \<union> set post2. blk b \<noteq> blk alloc" by (metis Un_iff imageI)
  then show "blk alloc \<notin> blk ` {b \<in> set pre1. freelist b \<noteq> Linked} \<union>
                      blk ` {b \<in> set post2. freelist b \<noteq> Linked}"
    by auto
qed

lemma free_step:
  assumes ok: "consts_ok c" and inv: "dev_inv c dev"
    and a: "a \<in> set (shader_arenas dev)" and p: "p \<in> allocations a"
  shows "\<exists>dev'. radv_free_shader_memory c dev p = Some dev' \<and> dev_inv c dev' \<and>
           set (shader_block_obj_pool dev) \<subseteq> set (shader_block_obj_pool dev') \<and>
           (if allocations a = {p} then
              shader_arenas dev' =
                filter (\<lambda>x. arena_ptr x \<noteq> arena_ptr a) (shader_arenas dev) \<and>
              bo a \<notin> set (ws dev') \<and>
              blk ` set (entries a) \<subseteq> set (shader_block_obj_pool dev')
            else
              (\<exists>a'\<in>set (shader_arenas dev'). arena_ptr a' = arena_ptr a \<and> bo a' = bo a \<and>
                 allocations a' = allocations a - {p} \<and>
                 filter (\<lambda>x. arena_ptr x \<noteq> arena_ptr a) (shader_arenas dev') =
                   filter (\<lambda>x. arena_ptr x \<noteq> arena_ptr a) (shader_arenas dev) \<and>
                 blk ` set (entries a) \<subseteq> blk ` set (entries a') \<union> set (shader_block_obj_pool dev')))"
proof -
  from p obtain alloc where al: "alloc \<in> set (entries a)" and nl: "freelist alloc \<noteq> Linked"
    and bp: "blk alloc = p"
    by (auto simp: allocations_def)
  from a obtain apre apost where ar: "shader_arenas dev = apre @ a # apost"
    by (auto dest: split_list)
  from al obtain pre post where es: "entries a = pre @ alloc # post" by (auto dest: split_list)
  have d: "distinct (map blk (all_blocks (apre @ a # apost)))"
    using dev_invD(2)[OF inv] unfolding ar by (simp only: distinct_append)
  have loc: "locate (shader_arenas dev) p = Some (apre, a, apost, pre, alloc, post)"
    unfolding ar bp[symmetric] by (rule locate_unique[OF d es])
  from free_result[OF ok inv loc nl] obtain dev' lp pre1 ln post2 where
    f: "radv_free_shader_memory c dev p = Some dev'"
    and sp: "pre = pre1 @ lp" "post = ln @ post2"
      "\<forall>b\<in>set lp \<union> set ln. freelist b = Linked"
      "pre1 \<noteq> [] \<longrightarrow> freelist (last pre1) \<noteq> Linked"
      "post2 \<noteq> [] \<longrightarrow> freelist (hd post2) \<noteq> Linked"
    and r: "if pre1 = [] \<and> post2 = [] then
              shader_arenas dev' = apre @ apost \<and> ws dev' = removeAll (bo a) (ws dev) \<and>
              set (shader_block_obj_pool dev') = set (shader_block_obj_pool dev) \<union> blk ` set (entries a)
            else
              (\<exists>h. shader_arenas dev' = apre @ a\<lparr>entries := pre1 @ h # post2\<rparr> # apost \<and>
                 ws dev' = ws dev \<and> freelist h = Linked \<and>
                 offset h = offset (hd (lp @ [alloc])) \<and>
                 size_b h = sum_list (map size_b (lp @ alloc # ln)) \<and>
                 blk h = blk (last (hd (lp @ [alloc]) # ln)) \<and>
                 set (shader_block_obj_pool dev') \<union> blk ` set (pre1 @ h # post2) =
                   set (shader_block_obj_pool dev) \<union> blk ` set (entries a))"
    by (elim exE conjE) (rule that, assumption+)
  have inv': "dev_inv c dev'" by (rule dev_inv_free[OF inv ok f])
  let ?A1 = "blk ` {b \<in> set pre1. freelist b \<noteq> Linked}"
  let ?A2 = "blk ` {b \<in> set post2. freelist b \<noteq> Linked}"
  have es': "entries a = pre1 @ lp @ alloc # ln @ post2" using es sp(1,2) by simp
  have de: "distinct (map blk (pre1 @ lp @ alloc # ln @ post2))"
    using distinct_arena_parts(1)[OF d] unfolding es' .
  note as = allocations_split[OF de nl sp(3)]
  have A: "allocations a = insert p (?A1 \<union> ?A2)"
    unfolding allocations_def set_map set_filter es' as(1) bp by (rule refl)
  have pn: "p \<notin> ?A1 \<union> ?A2" using as(2) unfolding bp .
  have dp: "arena_ptr a \<notin> arena_ptr ` set apre" "arena_ptr a \<notin> arena_ptr ` set apost"
    using dev_invD(3)[OF inv] unfolding ar by auto
  have da: "distinct (map arena_ptr (apre @ a # apost))" using dev_invD(3)[OF inv] unfolding ar .
  have dj: "set (shader_block_obj_pool dev) \<inter> blk ` set (entries a) = {}"
  proof -
    have "blk ` set (entries a) \<subseteq> set (map blk (all_blocks (shader_arenas dev)))"
      unfolding ar by (auto simp: all_blocks_def)
    moreover have "set (map blk (all_blocks (shader_arenas dev))) \<inter> set (shader_block_obj_pool dev) = {}"
      using dev_invD(2)[OF inv] by (simp only: distinct_append)
    ultimately show ?thesis by blast
  qed
  show ?thesis
  proof (cases "pre1 = [] \<and> post2 = []")
    case True
    then have single: "allocations a = {p}" unfolding A by simp
    from r True have r1: "shader_arenas dev' = apre @ apost"
      "ws dev' = removeAll (bo a) (ws dev)"
      "set (shader_block_obj_pool dev') = set (shader_block_obj_pool dev) \<union> blk ` set (entries a)"
      by simp_all
    have 1: "shader_arenas dev' = filter (\<lambda>x. arena_ptr x \<noteq> arena_ptr a) (shader_arenas dev)"
      unfolding r1(1) ar filter_other_arenas(1)[OF da] by (rule refl)
    have 2: "bo a \<notin> set (ws dev')" unfolding r1(2) by simp
    have 3: "blk ` set (entries a) \<subseteq> set (shader_block_obj_pool dev')" unfolding r1(3) by simp
    have 4: "set (shader_block_obj_pool dev) \<subseteq> set (shader_block_obj_pool dev')"
      unfolding r1(3) by simp
    show ?thesis
      apply (rule exI[of _ dev'])
      unfolding if_P[OF single]
      apply (intro conjI)
      apply (rule f, rule inv', rule 4, rule 1, rule 2, rule 3)
      done
  next
    case False
    have ne: "?A1 \<union> ?A2 \<noteq> {}"
    proof (cases "pre1 = []")
      case True
      with False have "post2 \<noteq> []" by simp
      with sp(5) have "hd post2 \<in> set post2" "freelist (hd post2) \<noteq> Linked" by simp_all
      then show ?thesis by blast
    next
      case False
      with sp(4) have "last pre1 \<in> set pre1" "freelist (last pre1) \<noteq> Linked" by simp_all
      then show ?thesis by blast
    qed
    have multi: "allocations a \<noteq> {p}"
    proof
      assume "allocations a = {p}"
      then have "?A1 \<union> ?A2 \<subseteq> {p}" unfolding A by blast
      with pn ne show False by blast
    qed
    from r obtain h where
      h: "shader_arenas dev' = apre @ a\<lparr>entries := pre1 @ h # post2\<rparr> # apost"
        "freelist h = Linked" "blk h = blk (last (hd (lp @ [alloc]) # ln))"
        "set (shader_block_obj_pool dev') \<union> blk ` set (pre1 @ h # post2) =
           set (shader_block_obj_pool dev) \<union> blk ` set (entries a)"
      unfolding if_not_P[OF False] by blast
    let ?a' = "a\<lparr>entries := pre1 @ h # post2\<rparr>"
    have 1: "?a' \<in> set (shader_arenas dev')" unfolding h(1) by simp
    have 2: "arena_ptr ?a' = arena_ptr a" "bo ?a' = bo a" by simp_all
    have "allocations ?a' = ?A1 \<union> ?A2"
      unfolding allocations_def using h(2) by auto
    also have "\<dots> = allocations a - {p}" unfolding A using pn by blast
    finally have 3: "allocations ?a' = allocations a - {p}" .
    have 4: "filter (\<lambda>x. arena_ptr x \<noteq> arena_ptr a) (shader_arenas dev') =
             filter (\<lambda>x. arena_ptr x \<noteq> arena_ptr a) (shader_arenas dev)"
      unfolding h(1) ar filter_other_arenas(1)[OF da] filter_other_arenas(2)[OF da 2(1)] by (rule refl)
    have 5: "blk ` set (entries a) \<subseteq> blk ` set (entries ?a') \<union> set (shader_block_obj_pool dev')"
      using h(4) by auto
    have bh: "blk h \<in> blk ` set (entries a)"
    proof -
      have "last (hd (lp @ [alloc]) # ln) \<in> set (lp @ alloc # ln)"
        by (cases ln rule: rev_cases; cases lp) simp_all
      then have "last (hd (lp @ [alloc]) # ln) \<in> set (entries a)" unfolding es' by auto
      then show ?thesis unfolding h(3) by (rule imageI)
    qed
    have sub: "blk ` set (pre1 @ h # post2) \<subseteq> blk ` set (entries a)"
      using bh unfolding es' by auto
    have 6: "set (shader_block_obj_pool dev) \<subseteq> set (shader_block_obj_pool dev')"
    proof
      fix x assume x: "x \<in> set (shader_block_obj_pool dev)"
      then have "x \<in> set (shader_block_obj_pool dev') \<union> blk ` set (pre1 @ h # post2)"
        using h(4) by blast
      moreover have "x \<notin> blk ` set (pre1 @ h # post2)" using x dj sub by blast
      ultimately show "x \<in> set (shader_block_obj_pool dev')" by blast
    qed
    show ?thesis
      apply (rule exI[of _ dev'])
      unfolding if_not_P[OF multi]
      apply (intro conjI)
      apply (rule f, rule inv', rule 6)
      apply (rule bexI[OF _ 1])
      apply (intro conjI)
      apply (rule 2(1), rule 2(2), rule 3, rule 4, rule 5)
      done
  qed
qed

lemma free_calls_arena:
  assumes ok: "consts_ok c"
  shows "dev_inv c dev \<Longrightarrow> a \<in> set (shader_arenas dev) \<Longrightarrow> distinct ps \<Longrightarrow>
         set ps = allocations a \<Longrightarrow>
         \<exists>dev'. free_calls c dev ps = Some dev' \<and> dev_inv c dev' \<and>
           set (shader_block_obj_pool dev) \<subseteq> set (shader_block_obj_pool dev') \<and>
           shader_arenas dev' =
             filter (\<lambda>x. arena_ptr x \<noteq> arena_ptr a) (shader_arenas dev) \<and>
           bo a \<notin> set (ws dev') \<and>
           blk ` set (entries a) \<subseteq> set (shader_block_obj_pool dev')"
proof (induction ps arbitrary: dev a)
  case Nil
  from dev_invD(1)[OF Nil(1,2)] have "\<exists>b\<in>set (entries a). freelist b \<noteq> Linked"
    by (simp add: arena_inv_def arena_coalesced_def)
  then have "allocations a \<noteq> {}" by (auto simp: allocations_def)
  with Nil(4) show ?case by simp
next
  case (Cons p ps)
  have p: "p \<in> allocations a" using Cons.prems(4) by auto
  from free_step[OF ok Cons.prems(1,2) p] obtain dev1 where
    f: "radv_free_shader_memory c dev p = Some dev1" and inv1: "dev_inv c dev1"
    and pm: "set (shader_block_obj_pool dev) \<subseteq> set (shader_block_obj_pool dev1)"
    and r: "if allocations a = {p} then
              shader_arenas dev1 =
                filter (\<lambda>x. arena_ptr x \<noteq> arena_ptr a) (shader_arenas dev) \<and>
              bo a \<notin> set (ws dev1) \<and>
              blk ` set (entries a) \<subseteq> set (shader_block_obj_pool dev1)
            else
              (\<exists>a'\<in>set (shader_arenas dev1). arena_ptr a' = arena_ptr a \<and> bo a' = bo a \<and>
                 allocations a' = allocations a - {p} \<and>
                 filter (\<lambda>x. arena_ptr x \<noteq> arena_ptr a) (shader_arenas dev1) =
                   filter (\<lambda>x. arena_ptr x \<noteq> arena_ptr a) (shader_arenas dev) \<and>
                 blk ` set (entries a) \<subseteq> blk ` set (entries a') \<union> set (shader_block_obj_pool dev1))"
    by (elim exE conjE)
  have fc: "free_calls c dev (p # ps) = free_calls c dev1 ps" by (simp add: f)
  have pn: "p \<notin> set ps" using Cons.prems(3) by simp
  show ?case
  proof (cases "allocations a = {p}")
    case True
    with Cons.prems(4) have sub: "set ps \<subseteq> {p}" by auto
    have e: "ps = []"
    proof (cases ps)
      case Nil
      then show ?thesis .
    next
      case (Cons x xs)
      then have "x \<in> set ps" by simp
      with sub have "x = p" by auto
      with pn Cons show ?thesis by simp
    qed
    from r have r1: "shader_arenas dev1 =
                filter (\<lambda>x. arena_ptr x \<noteq> arena_ptr a) (shader_arenas dev)"
      "bo a \<notin> set (ws dev1)" "blk ` set (entries a) \<subseteq> set (shader_block_obj_pool dev1)"
      unfolding if_P[OF True] by simp_all
    have "free_calls c dev (p # ps) = Some dev1" by (simp add: f e)
    with inv1 pm r1 show ?thesis by blast
  next
    case False
    from r obtain a' where a': "a' \<in> set (shader_arenas dev1)"
      and q: "arena_ptr a' = arena_ptr a" "bo a' = bo a" "allocations a' = allocations a - {p}"
        "filter (\<lambda>x. arena_ptr x \<noteq> arena_ptr a) (shader_arenas dev1) =
           filter (\<lambda>x. arena_ptr x \<noteq> arena_ptr a) (shader_arenas dev)"
        "blk ` set (entries a) \<subseteq> blk ` set (entries a') \<union> set (shader_block_obj_pool dev1)"
      unfolding if_not_P[OF False] by blast
    have sps: "set ps = allocations a'" unfolding q(3) using Cons.prems(4) pn by auto
    have dps: "distinct ps" using Cons.prems(3) by simp
    from Cons.IH[OF inv1 a' dps sps] obtain dev' where
      g: "free_calls c dev1 ps = Some dev'" "dev_inv c dev'"
        "set (shader_block_obj_pool dev1) \<subseteq> set (shader_block_obj_pool dev')"
        "shader_arenas dev' =
             filter (\<lambda>x. arena_ptr x \<noteq> arena_ptr a') (shader_arenas dev1)"
        "bo a' \<notin> set (ws dev')"
        "blk ` set (entries a') \<subseteq> set (shader_block_obj_pool dev')"
      by (elim exE conjE)
    have 1: "free_calls c dev (p # ps) = Some dev'" unfolding fc by (rule g(1))
    have 2: "set (shader_block_obj_pool dev) \<subseteq> set (shader_block_obj_pool dev')"
      using pm g(3) by blast
    have 3: "shader_arenas dev' =
             filter (\<lambda>x. arena_ptr x \<noteq> arena_ptr a) (shader_arenas dev)"
      using g(4) unfolding q(1) q(4) .
    have 4: "bo a \<notin> set (ws dev')" using g(5) unfolding q(2) .
    have 5: "blk ` set (entries a) \<subseteq> set (shader_block_obj_pool dev')"
      using q(5) g(3) g(6) by blast
    from 1 g(2) 2 3 4 5 show ?thesis by blast
  qed
qed

lemma free_ex7: "radv_free_shader_memory radv_consts ex_dev4 1 = Some ex_dev7"
proof -
  let ?b1 = "\<lparr>blk = 1, offset = 0, size_b = 256, freelist = Unlinked 7\<rparr>"
  let ?b2 = "\<lparr>blk = 2, offset = 256, size_b = 261888, freelist = Linked\<rparr>"
  let ?h2 = "\<lparr>blk = 2, offset = 0, size_b = 262144, freelist = Linked\<rparr>"
  let ?d2 = "free_block_obj (remove_hole radv_consts ex_dev4 ?b2) 1"
  have loc: "locate (shader_arenas ex_dev4) 1 =
     Some ([], hd (shader_arenas ex_dev4), [], [], ?b1, [?b2])"
    by (simp add: locate_def block_ptrs_def ex_dev4_def)
  have nl: "freelist ?b1 \<noteq> Linked" by simp
  have mp: "merge_prev radv_consts ([], ?b1, ex_dev4) = ([], ?b1, ex_dev4)" by simp
  have mn: "merge_next radv_consts ([?b2], ?b1, ex_dev4) = ([], ?h2, ?d2)"
    by (simp add: merge_next_def get_hole_def hd_opt_def u32_def sub_u32_def)
  show ?thesis
    unfolding radv_free_eq[OF loc nl mp mn]
    by (simp add: buffer_destroy_def free_block_obj_def remove_hole_def class_ex ex_dev4_def
        ex_dev7_def ex_bo1_def)
qed

lemma free_calls_ex2: "free_calls radv_consts ex_dev2 [3, 1] = Some ex_dev7"
proof -
  have "free_calls radv_consts ex_dev2 [3, 1] = free_calls radv_consts ex_dev4 [1]"
    unfolding free_calls.simps free_ex3 by simp
  also have "\<dots> = Some ex_dev7" unfolding free_calls.simps free_ex7 by simp
  finally show ?thesis .
qed

lemma allocations_ex: "allocations (hd (shader_arenas ex_dev2)) = {1, 3}"
  by (auto simp: allocations_def ex_dev2_def)

section \<open>The claims\<close>

text \<open>
  C1. Tiling invariant: from the initialised empty device, after every sequence of calls of
  \<^verbatim>\<open>radv_alloc_shader_memory\<close> and \<^verbatim>\<open>radv_free_shader_memory\<close>, the blocks of
  every arena tile its buffer: the first block starts at 0, each block ends where the next
  starts, and the last block ends at the size of the buffer.
\<close>

theorem tiling_invariant:
  assumes "consts_ok c" and "reachable c dev"
  shows "\<forall>a\<in>set (shader_arenas dev). tiling a"
  using dev_invD(1)[OF reachable_inv[OF assms]] arena_inv_tiling by blast

theorem tiling_invariant_witness:
  "consts_ok radv_consts \<and> reachable radv_consts ex_dev3 \<and>
   hd (shader_arenas ex_dev3) \<in> set (shader_arenas ex_dev3) \<and>
   tiling (hd (shader_arenas ex_dev3))"
proof -
  have m: "hd (shader_arenas ex_dev3) \<in> set (shader_arenas ex_dev3)" by (simp add: ex_dev3_def)
  show ?thesis
    using tiling_invariant[OF consts_ok_radv reachable_dev3] consts_ok_radv reachable_dev3 m
    by blast
qed

text \<open>
  C2. Postcondition of an allocation, for a request whose size rounded up to the alignment
  fits 32 bits (\<open>size + ALIGNMENT \<le> 2 ^ 32\<close>): when \<^verbatim>\<open>radv_alloc_shader_memory\<close> returns a
  block, it is a block of an arena of the device, allocated for \<open>ptr\<close>; its size is the
  request rounded up to the alignment (the multiple of the alignment in
  \<open>[size, size + ALIGNMENT)\<close>), its offset is a multiple of the alignment, and its address
  range shares no address with the range of any other block of any arena, allocated or not.
  Without the bound the size is the rounded request modulo \<open>2 ^ 32\<close>.
\<close>

theorem alloc_postcondition:
  assumes "consts_ok c" and "reachable c dev" and "env_ok c dev sz0 e"
    and "sz0 + ALLOC_ALIGNMENT c \<le> 2 ^ 32"
    and "radv_alloc_shader_memory c e dev sz0 ptr = Some (Some p, dev1)"
  shows "\<exists>a\<in>set (shader_arenas dev1). \<exists>b\<in>set (entries a).
           blk b = p \<and> freelist b = Unlinked ptr \<and>
           ALLOC_ALIGNMENT c dvd size_b b \<and> sz0 \<le> size_b b \<and> size_b b < sz0 + ALLOC_ALIGNMENT c \<and>
           ALLOC_ALIGNMENT c dvd offset b \<and>
           (\<forall>a'\<in>set (shader_arenas dev1). \<forall>b'\<in>set (entries a').
              blk b' \<noteq> p \<longrightarrow> blocks_disjoint a b a' b')"
proof -
  note inv = reachable_inv[OF assms(1,2)]
  have inv1: "dev_inv c dev1" by (rule dev_inv_alloc[OF inv assms(1,3,5)])
  from alloc_returns_block[OF assms(1) inv assms(5)] obtain a b where
    a: "a \<in> set (shader_arenas dev1)" and b: "b \<in> set (entries a)"
    and p: "blk b = p" and f: "freelist b = Unlinked ptr"
    and s: "size_b b = align_u32 sz0 (ALLOC_ALIGNMENT c)"
    by blast
  note r = align_u32_exact(2-4)[OF consts_okD(4)[OF assms(1)] assms(4)]
  have "arena_aligned c a" using dev_invD(1)[OF inv1 a] by (simp add: arena_inv_def)
  then have o: "ALLOC_ALIGNMENT c dvd offset b" using b by (simp add: arena_aligned_def)
  have d: "\<forall>a'\<in>set (shader_arenas dev1). \<forall>b'\<in>set (entries a').
              blk b' \<noteq> p \<longrightarrow> blocks_disjoint a b a' b'"
  proof (intro ballI impI)
    fix a' b'
    assume "a' \<in> set (shader_arenas dev1)" "b' \<in> set (entries a')" "blk b' \<noteq> p"
    then show "blocks_disjoint a b a' b'"
      using no_aliasing[OF inv1 a _ b, of a' b'] p by simp
  qed
  from a b p f s r o d show ?thesis by (intro bexI[of _ a] bexI[of _ b]) simp_all
qed

theorem alloc_postcondition_witness:
  "consts_ok radv_consts \<and> reachable radv_consts ex_dev1 \<and> env_ok radv_consts ex_dev1 512 ex_env2 \<and>
   512 + ALLOC_ALIGNMENT radv_consts \<le> 2 ^ 32 \<and>
   radv_alloc_shader_memory radv_consts ex_env2 ex_dev1 512 8 = Some (Some 3, ex_dev2) \<and>
   (\<exists>a\<in>set (shader_arenas ex_dev2). \<exists>b\<in>set (entries a).
      blk b = 3 \<and> freelist b = Unlinked 8 \<and> size_b b = 512 \<and> offset b = 256)"
proof -
  have le: "512 + ALLOC_ALIGNMENT radv_consts \<le> 2 ^ 32" by (simp add: radv_consts_def)
  from alloc_postcondition[OF consts_ok_radv reachable_dev1 env_ok_ex2 le alloc_ex2]
  obtain a b where a: "a \<in> set (shader_arenas ex_dev2)" and b: "b \<in> set (entries a)"
    and p: "blk b = 3" and f: "freelist b = Unlinked 8"
    by blast
  from a b p have "size_b b = 512 \<and> offset b = 256" by (auto simp: ex_dev2_def)
  with a b p f have "\<exists>a\<in>set (shader_arenas ex_dev2). \<exists>b\<in>set (entries a).
      blk b = 3 \<and> freelist b = Unlinked 8 \<and> size_b b = 512 \<and> offset b = 256"
    by blast
  with le show ?thesis
    using consts_ok_radv reachable_dev1 env_ok_ex2 alloc_ex2 by simp
qed

theorem alloc_postcondition_counterexample:
  "consts_ok radv_consts \<and> reachable radv_consts empty_dev \<and>
   env_ok radv_consts empty_dev 4294967295 ex_env1 \<and> (0::nat) < 4294967295 \<and>
   radv_alloc_shader_memory radv_consts ex_env1 empty_dev 4294967295 7 = Some (Some 1, ex_dev6) \<and>
   blk (hd (entries (hd (shader_arenas ex_dev6)))) = 1 \<and>
   size_b (hd (entries (hd (shader_arenas ex_dev6)))) = 0 \<and>
   \<not> (\<exists>b\<in>set (all_blocks (shader_arenas ex_dev6)). blk b = 1 \<and> 4294967295 \<le> size_b b)"
proof -
  have e: "env_ok radv_consts empty_dev 4294967295 ex_env1"
    by (simp add: env_ok_def empty_dev_def ex_env1_def)
  have "blk (hd (entries (hd (shader_arenas ex_dev6)))) = 1"
    "size_b (hd (entries (hd (shader_arenas ex_dev6)))) = 0"
    "\<not> (\<exists>b\<in>set (all_blocks (shader_arenas ex_dev6)). blk b = 1 \<and> 4294967295 \<le> size_b b)"
    by (simp_all add: ex_dev6_def all_blocks_def)
  then show ?thesis
    using consts_ok_radv reachable_empty e alloc_wrap_ex by simp
qed

text \<open>
  C3. Eager coalescing: \<^verbatim>\<open>radv_free_shader_memory\<close> of an allocation returns, and what it
  leaves of the allocation is one hole or nothing. With \<open>lp\<close> the hole just before the
  allocation and \<open>ln\<close> the hole just after it (each empty when that neighbour is an
  allocation or missing): when no other block is left in the arena, the arena is gone;
  otherwise the hole before, the allocation and the hole after are replaced by a single hole
  \<open>h\<close> that starts where the first of them started, is as large as the three together and is
  filed in the free list of its size class, and neither the block before \<open>h\<close> nor the block
  after it is a hole. No arena of the device has two holes next to each other afterwards.
\<close>

theorem eager_coalescing:
  assumes "consts_ok c" and "reachable c dev"
    and "a \<in> set (shader_arenas dev)" and "alloc \<in> set (entries a)"
    and "freelist alloc \<noteq> Linked"
  shows "\<exists>dev' apre apost pre post lp pre1 ln post2.
           radv_free_shader_memory c dev (blk alloc) = Some dev' \<and>
           shader_arenas dev = apre @ a # apost \<and> entries a = pre @ alloc # post \<and>
           pre = pre1 @ lp \<and> post = ln @ post2 \<and> length lp \<le> 1 \<and> length ln \<le> 1 \<and>
           (\<forall>b\<in>set lp \<union> set ln. freelist b = Linked) \<and>
           (pre1 \<noteq> [] \<longrightarrow> freelist (last pre1) \<noteq> Linked) \<and>
           (post2 \<noteq> [] \<longrightarrow> freelist (hd post2) \<noteq> Linked) \<and>
           (if pre1 = [] \<and> post2 = [] then shader_arenas dev' = apre @ apost
            else
              (\<exists>h. shader_arenas dev' = apre @ a\<lparr>entries := pre1 @ h # post2\<rparr> # apost \<and>
                 freelist h = Linked \<and>
                 offset h = offset (hd (lp @ [alloc])) \<and>
                 size_b h = sum_list (map size_b (lp @ alloc # ln)) \<and>
                 blk h \<in> set (shader_free_lists dev' ! get_size_class c (size_b h) False))) \<and>
           (\<forall>a'\<in>set (shader_arenas dev'). \<forall>i. Suc i < length (entries a') \<longrightarrow>
              \<not> (freelist (entries a' ! i) = Linked \<and> freelist (entries a' ! Suc i) = Linked))"
proof -
  note inv = reachable_inv[OF assms(1,2)]
  from assms(3) obtain apre apost where ar: "shader_arenas dev = apre @ a # apost"
    by (auto dest: split_list)
  from assms(4) obtain pre post where es: "entries a = pre @ alloc # post"
    by (auto dest: split_list)
  have d: "distinct (map blk (all_blocks (apre @ a # apost)))"
    using dev_invD(2)[OF inv] unfolding ar by (simp only: distinct_append)
  have loc: "locate (shader_arenas dev) (blk alloc) = Some (apre, a, apost, pre, alloc, post)"
    unfolding ar by (rule locate_unique[OF d es])
  from free_result[OF assms(1) inv loc assms(5)] obtain dev' lp pre1 ln post2 where
    f: "radv_free_shader_memory c dev (blk alloc) = Some dev'"
    and sp: "pre = pre1 @ lp" "post = ln @ post2" "length lp \<le> 1" "length ln \<le> 1"
      "\<forall>b\<in>set lp \<union> set ln. freelist b = Linked"
      "pre1 \<noteq> [] \<longrightarrow> freelist (last pre1) \<noteq> Linked"
      "post2 \<noteq> [] \<longrightarrow> freelist (hd post2) \<noteq> Linked"
    and r: "if pre1 = [] \<and> post2 = [] then
              shader_arenas dev' = apre @ apost \<and> ws dev' = removeAll (bo a) (ws dev) \<and>
              set (shader_block_obj_pool dev') = set (shader_block_obj_pool dev) \<union> blk ` set (entries a)
            else
              (\<exists>h. shader_arenas dev' = apre @ a\<lparr>entries := pre1 @ h # post2\<rparr> # apost \<and>
                 ws dev' = ws dev \<and> freelist h = Linked \<and>
                 offset h = offset (hd (lp @ [alloc])) \<and>
                 size_b h = sum_list (map size_b (lp @ alloc # ln)) \<and>
                 blk h = blk (last (hd (lp @ [alloc]) # ln)) \<and>
                 set (shader_block_obj_pool dev') \<union> blk ` set (pre1 @ h # post2) =
                   set (shader_block_obj_pool dev) \<union> blk ` set (entries a))"
    by (elim exE conjE)
  have inv': "dev_inv c dev'" by (rule dev_inv_free[OF inv assms(1) f])
  have co: "\<forall>a'\<in>set (shader_arenas dev'). \<forall>i. Suc i < length (entries a') \<longrightarrow>
              \<not> (freelist (entries a' ! i) = Linked \<and> freelist (entries a' ! Suc i) = Linked)"
  proof (intro ballI allI impI)
    fix a' i
    assume a': "a' \<in> set (shader_arenas dev')" and i: "Suc i < length (entries a')"
    have "no_adjacent_holes (entries a')"
      using dev_invD(1)[OF inv' a'] by (simp add: arena_inv_def arena_coalesced_def)
    then show "\<not> (freelist (entries a' ! i) = Linked \<and> freelist (entries a' ! Suc i) = Linked)"
      using i by (rule nah_nth)
  qed
  have r': "if pre1 = [] \<and> post2 = [] then shader_arenas dev' = apre @ apost
            else
              (\<exists>h. shader_arenas dev' = apre @ a\<lparr>entries := pre1 @ h # post2\<rparr> # apost \<and>
                 freelist h = Linked \<and>
                 offset h = offset (hd (lp @ [alloc])) \<and>
                 size_b h = sum_list (map size_b (lp @ alloc # ln)) \<and>
                 blk h \<in> set (shader_free_lists dev' ! get_size_class c (size_b h) False))"
  proof (cases "pre1 = [] \<and> post2 = []")
    case True
    with r show ?thesis by simp
  next
    case False
    from r obtain h where
      h: "shader_arenas dev' = apre @ a\<lparr>entries := pre1 @ h # post2\<rparr> # apost"
        "freelist h = Linked" "offset h = offset (hd (lp @ [alloc]))"
        "size_b h = sum_list (map size_b (lp @ alloc # ln))"
      unfolding if_not_P[OF False] by blast
    let ?k = "get_size_class c (size_b h) False"
    have k: "?k < ALLOC_NUM_FREE_LISTS c" by (rule consts_okD(5)[OF assms(1)])
    have "h \<in> set (all_blocks (shader_arenas dev'))" unfolding h(1) by (simp add: all_blocks_def)
    then have "blk h \<in> hole_ptrs c (all_blocks (shader_arenas dev')) ?k"
      using h(2) by (auto simp: hole_ptrs_def)
    then have "blk h \<in> set (shader_free_lists dev' ! ?k)"
      using dev_invD(4)[OF inv'] k by (simp add: lists_ok_def)
    with h show ?thesis unfolding if_not_P[OF False] by blast
  qed
  show ?thesis
    apply (rule exI[of _ dev'], rule exI[of _ apre], rule exI[of _ apost], rule exI[of _ pre],
           rule exI[of _ post], rule exI[of _ lp], rule exI[of _ pre1], rule exI[of _ ln],
           rule exI[of _ post2])
    apply (intro conjI)
    apply (rule f, rule ar, rule es, rule sp(1), rule sp(2), rule sp(3), rule sp(4), rule sp(5),
           rule sp(6), rule sp(7), rule r', rule co)
    done
qed

theorem eager_coalescing_witness:
  "consts_ok radv_consts \<and> reachable radv_consts ex_dev2 \<and>
   hd (shader_arenas ex_dev2) \<in> set (shader_arenas ex_dev2) \<and>
   entries (hd (shader_arenas ex_dev2)) ! 1 \<in> set (entries (hd (shader_arenas ex_dev2))) \<and>
   freelist (entries (hd (shader_arenas ex_dev2)) ! 1) \<noteq> Linked \<and>
   blk (entries (hd (shader_arenas ex_dev2)) ! 1) = 3 \<and>
   freelist (entries (hd (shader_arenas ex_dev2)) ! 0) \<noteq> Linked \<and>
   freelist (entries (hd (shader_arenas ex_dev2)) ! 2) = Linked \<and>
   radv_free_shader_memory radv_consts ex_dev2 3 = Some ex_dev4 \<and>
   entries (hd (shader_arenas ex_dev4)) =
     [entries (hd (shader_arenas ex_dev2)) ! 0,
      \<lparr>blk = 2, offset = offset (entries (hd (shader_arenas ex_dev2)) ! 1),
        size_b = size_b (entries (hd (shader_arenas ex_dev2)) ! 1) +
                 size_b (entries (hd (shader_arenas ex_dev2)) ! 2),
        freelist = Linked\<rparr>] \<and>
   2 \<in> set (shader_free_lists ex_dev4 ! 7) \<and>
   \<not> (freelist (entries (hd (shader_arenas ex_dev4)) ! 0) = Linked \<and>
      freelist (entries (hd (shader_arenas ex_dev4)) ! Suc 0) = Linked) \<and>
   reachable radv_consts ex_dev3 \<and>
   entries (hd (shader_arenas ex_dev3)) ! 1 \<in> set (entries (hd (shader_arenas ex_dev3))) \<and>
   freelist (entries (hd (shader_arenas ex_dev3)) ! 0) = Linked \<and>
   freelist (entries (hd (shader_arenas ex_dev3)) ! 1) \<noteq> Linked \<and>
   freelist (entries (hd (shader_arenas ex_dev3)) ! 2) = Linked \<and>
   radv_free_shader_memory radv_consts ex_dev3 3 = Some ex_dev7 \<and>
   shader_arenas ex_dev7 = []"
proof -
  let ?a = "hd (shader_arenas ex_dev2)"
  have a: "?a \<in> set (shader_arenas ex_dev2)" by (simp add: ex_dev2_def)
  have b: "entries ?a ! 1 \<in> set (entries ?a)" by (simp add: ex_dev2_def)
  have n: "freelist (entries ?a ! 1) \<noteq> Linked" by (simp add: ex_dev2_def)
  have p: "blk (entries ?a ! 1) = 3" by (simp add: ex_dev2_def)
  have nb: "freelist (entries ?a ! 0) \<noteq> Linked" "freelist (entries ?a ! 2) = Linked"
    by (simp_all add: ex_dev2_def)
  from eager_coalescing[OF consts_ok_radv reachable_dev2 a b n]
  obtain d where f: "radv_free_shader_memory radv_consts ex_dev2 (blk (entries ?a ! 1)) = Some d"
    and co: "\<forall>a'\<in>set (shader_arenas d). \<forall>i. Suc i < length (entries a') \<longrightarrow>
              \<not> (freelist (entries a' ! i) = Linked \<and> freelist (entries a' ! Suc i) = Linked)"
    by (elim exE conjE) (rule that, assumption+)
  from f have d: "d = ex_dev4" unfolding p free_ex3 by simp
  have a4: "hd (shader_arenas ex_dev4) \<in> set (shader_arenas ex_dev4)"
    "Suc 0 < length (entries (hd (shader_arenas ex_dev4)))"
    by (simp_all add: ex_dev4_def)
  from co[unfolded d, rule_format, OF a4]
  have c4: "\<not> (freelist (entries (hd (shader_arenas ex_dev4)) ! 0) = Linked \<and>
      freelist (entries (hd (shader_arenas ex_dev4)) ! Suc 0) = Linked)" .
  have e4: "entries (hd (shader_arenas ex_dev4)) =
     [entries ?a ! 0,
      \<lparr>blk = 2, offset = offset (entries ?a ! 1),
        size_b = size_b (entries ?a ! 1) + size_b (entries ?a ! 2), freelist = Linked\<rparr>]"
    "2 \<in> set (shader_free_lists ex_dev4 ! 7)"
    by (simp_all add: ex_dev4_def ex_dev2_def)
  let ?a3 = "hd (shader_arenas ex_dev3)"
  have a3: "?a3 \<in> set (shader_arenas ex_dev3)" by (simp add: ex_dev3_def)
  have b3: "entries ?a3 ! 1 \<in> set (entries ?a3)" by (simp add: ex_dev3_def)
  have n3: "freelist (entries ?a3 ! 1) \<noteq> Linked" by (simp add: ex_dev3_def)
  have p3: "blk (entries ?a3 ! 1) = 3" by (simp add: ex_dev3_def)
  have nb3: "freelist (entries ?a3 ! 0) = Linked" "freelist (entries ?a3 ! 2) = Linked"
    by (simp_all add: ex_dev3_def)
  from eager_coalescing[OF consts_ok_radv reachable_dev3 a3 b3 n3]
  obtain d' where "radv_free_shader_memory radv_consts ex_dev3 (blk (entries ?a3 ! 1)) = Some d'"
    by (elim exE conjE) (rule that, assumption+)
  then have d': "d' = ex_dev7" unfolding p3 free_ex6 by simp
  have e7: "shader_arenas ex_dev7 = []" by (simp add: ex_dev7_def)
  show ?thesis
    using consts_ok_radv reachable_dev2 a b n p nb free_ex3 e4 c4 reachable_dev3 b3 nb3 n3 free_ex6 e7
    by (intro conjI) simp_all
qed

text \<open>
  C4. Arena reclamation: when the allocations of an arena are released, one call of
  \<^verbatim>\<open>radv_free_shader_memory\<close> after another and in any order (\<open>ps\<close> lists the addresses
  of the allocations of the arena, each once), every call returns and after the last one the
  arena is gone from \<^verbatim>\<open>shader_arenas\<close>, the other arenas being as before, and its buffer
  is destroyed. Every block object of the arena, the block that spans it after the last merge
  among them, is in the pool of block objects, and no free list holds any of them.
\<close>

theorem arena_reclamation:
  assumes "consts_ok c" and "reachable c dev"
    and "a \<in> set (shader_arenas dev)" and "distinct ps" and "set ps = allocations a"
  shows "\<exists>dev'. free_calls c dev ps = Some dev' \<and>
           shader_arenas dev' =
             filter (\<lambda>x. arena_ptr x \<noteq> arena_ptr a) (shader_arenas dev) \<and>
           a \<notin> set (shader_arenas dev') \<and>
           arena_ptr a \<notin> arena_ptr ` set (shader_arenas dev') \<and>
           bo a \<notin> set (ws dev') \<and>
           blk ` set (entries a) \<subseteq> set (shader_block_obj_pool dev') \<and>
           (\<forall>k<length (shader_free_lists dev').
              set (shader_free_lists dev' ! k) \<inter> blk ` set (entries a) = {})"
proof -
  note inv = reachable_inv[OF assms(1,2)]
  from free_calls_arena[OF assms(1) inv assms(3,4,5)] obtain dev' where
    f: "free_calls c dev ps = Some dev'" and inv': "dev_inv c dev'"
    and ar: "shader_arenas dev' =
             filter (\<lambda>x. arena_ptr x \<noteq> arena_ptr a) (shader_arenas dev)"
    and w: "bo a \<notin> set (ws dev')"
    and pool: "blk ` set (entries a) \<subseteq> set (shader_block_obj_pool dev')"
    by (elim exE conjE)
  have c2: "arena_ptr a \<notin> arena_ptr ` set (shader_arenas dev')" unfolding ar by auto
  then have c1: "a \<notin> set (shader_arenas dev')" by auto
  have dj: "set (map blk (all_blocks (shader_arenas dev'))) \<inter> set (shader_block_obj_pool dev') = {}"
    using dev_invD(2)[OF inv'] by (simp only: distinct_append)
  have lists: "\<forall>k<length (shader_free_lists dev').
              set (shader_free_lists dev' ! k) \<inter> blk ` set (entries a) = {}"
  proof (intro allI impI)
    fix k assume k: "k < length (shader_free_lists dev')"
    from dev_invD(4)[OF inv'] k
    have "set (shader_free_lists dev' ! k) = hole_ptrs c (all_blocks (shader_arenas dev')) k"
      by (simp add: lists_ok_def)
    then have "set (shader_free_lists dev' ! k) \<subseteq> set (map blk (all_blocks (shader_arenas dev')))"
      using hole_ptrs_subset[of c "all_blocks (shader_arenas dev')" k] by simp
    with dj pool show "set (shader_free_lists dev' ! k) \<inter> blk ` set (entries a) = {}" by blast
  qed
  from f ar c1 c2 w pool lists show ?thesis by blast
qed

theorem arena_reclamation_witness:
  "consts_ok radv_consts \<and> reachable radv_consts ex_dev2 \<and>
   hd (shader_arenas ex_dev2) \<in> set (shader_arenas ex_dev2) \<and>
   allocations (hd (shader_arenas ex_dev2)) = {1, 3} \<and>
   distinct [1::nat, 3] \<and> set [1::nat, 3] = allocations (hd (shader_arenas ex_dev2)) \<and>
   free_calls radv_consts ex_dev2 [1, 3] = Some ex_dev7 \<and>
   distinct [3::nat, 1] \<and> set [3::nat, 1] = allocations (hd (shader_arenas ex_dev2)) \<and>
   free_calls radv_consts ex_dev2 [3, 1] = Some ex_dev7 \<and>
   shader_arenas ex_dev7 = [] \<and>
   bo (hd (shader_arenas ex_dev2)) \<notin> set (ws ex_dev7) \<and>
   blk ` set (entries (hd (shader_arenas ex_dev2))) \<subseteq> set (shader_block_obj_pool ex_dev7)"
proof -
  let ?a = "hd (shader_arenas ex_dev2)"
  have a: "?a \<in> set (shader_arenas ex_dev2)" by (simp add: ex_dev2_def)
  have d1: "distinct [1::nat, 3]" and d2: "distinct [3::nat, 1]" by simp_all
  have s1: "set [1::nat, 3] = allocations ?a" and s2: "set [3::nat, 1] = allocations ?a"
    unfolding allocations_ex by auto
  from arena_reclamation[OF consts_ok_radv reachable_dev2 a d1 s1]
  obtain d where f1: "free_calls radv_consts ex_dev2 [1, 3] = Some d"
    and w1: "bo ?a \<notin> set (ws d)"
    and p1: "blk ` set (entries ?a) \<subseteq> set (shader_block_obj_pool d)"
    by (elim exE conjE) (rule that, assumption+)
  from f1 have e1: "d = ex_dev7" unfolding free_calls_ex by simp
  from arena_reclamation[OF consts_ok_radv reachable_dev2 a d2 s2]
  obtain d' where f2: "free_calls radv_consts ex_dev2 [3, 1] = Some d'"
    by (elim exE conjE) (rule that, assumption+)
  have e7: "shader_arenas ex_dev7 = []" by (simp add: ex_dev7_def)
  show ?thesis
    using consts_ok_radv reachable_dev2 a allocations_ex d1 s1 free_calls_ex d2 s2 free_calls_ex2 e7
      w1[unfolded e1] p1[unfolded e1]
    by (intro conjI)
qed




text \<open>
  C6. Failure of an allocation that has to create an arena (no size class was found, or no
  hole of the class found is large enough). When \<^verbatim>\<open>calloc\<close> of the arena,
  \<^verbatim>\<open>buffer_create\<close> or \<^verbatim>\<open>buffer_map\<close> fails, the call returns \<^verbatim>\<open>NULL\<close> and the device
  is as before the call, the buffer created being destroyed. When these succeed and a block
  object cannot be had (the first, or the second when the arena is larger than the request),
  the call returns \<^verbatim>\<open>NULL\<close> and the device is as before except for the pool: the block
  object taken from it is released with \<^verbatim>\<open>free\<close> and does not go back, so the pool, which
  held at most one object, is empty. In every other case the call returns a block. And whenever
  the call returns \<^verbatim>\<open>NULL\<close>, on this path or at a split, the arenas, buffers, free lists,
  mask and arena shift are as before.
\<close>

theorem failed_allocation_state:
  assumes "consts_ok c" and "reachable c dev" and "env_ok c dev sz0 e"
    and "sz = align_u32 sz0 (ALLOC_ALIGNMENT c)"
    and "radv_alloc_shader_memory c e dev sz0 ptr = Some (r, dev1)"
  shows "((ffs (search_word c dev sz) = 0 \<or>
           find_fit (shader_arenas dev) sz
             (shader_free_lists dev ! (ffs (search_word c dev sz) - 1)) = Some None) \<longrightarrow>
          (if env_calloc e = None \<or> env_buffer_create e = None \<or> \<not> env_buffer_map e then
             r = None \<and> dev1 = dev
           else if first_obj dev e = None \<or>
                   (sz < arena_size_of c dev sz \<and> second_obj dev e = None) then
             r = None \<and> dev1 = dev\<lparr>shader_block_obj_pool := []\<rparr> \<and>
             length (shader_block_obj_pool dev) \<le> 1
           else r = first_obj dev e \<and> r \<noteq> None)) \<and>
         (r = None \<longrightarrow>
            shader_arenas dev1 = shader_arenas dev \<and> ws dev1 = ws dev \<and>
            shader_free_lists dev1 = shader_free_lists dev \<and>
            shader_free_list_mask dev1 = shader_free_list_mask dev \<and>
            shader_arena_shift dev1 = shader_arena_shift dev \<and>
            (shader_block_obj_pool dev1 = shader_block_obj_pool dev \<or>
             (\<exists>x. shader_block_obj_pool dev = [x] \<and> shader_block_obj_pool dev1 = [])))"
proof -
  note inv = reachable_inv[OF assms(1,2)]
  have env: "\<forall>h va. env_buffer_create e = Some (h, va) \<longrightarrow>
        (\<forall>b\<in>set (ws dev).
           bo_disjoint b \<lparr>bo_handle = h, bo_va = va, bo_size = arena_size_of c dev sz\<rparr>)"
    using assms(3) unfolding env_ok_def assms(4) by blast
  note out = alloc_new_arena_outcome[OF assms(1) env, of ptr]
  have new: ?thesis if n: "alloc_new_arena c e dev sz ptr = (r, dev1)"
  proof -
    have 1: "r = None \<longrightarrow>
            shader_arenas dev1 = shader_arenas dev \<and> ws dev1 = ws dev \<and>
            shader_free_lists dev1 = shader_free_lists dev \<and>
            shader_free_list_mask dev1 = shader_free_list_mask dev \<and>
            shader_arena_shift dev1 = shader_arena_shift dev \<and>
            (shader_block_obj_pool dev1 = shader_block_obj_pool dev \<or>
             (\<exists>x. shader_block_obj_pool dev = [x] \<and> shader_block_obj_pool dev1 = []))"
      using alloc_new_arena_none[OF assms(1) env] n by blast
    have 2: "if env_calloc e = None \<or> env_buffer_create e = None \<or> \<not> env_buffer_map e then
             r = None \<and> dev1 = dev
           else if first_obj dev e = None \<or>
                   (sz < arena_size_of c dev sz \<and> second_obj dev e = None) then
             r = None \<and> dev1 = dev\<lparr>shader_block_obj_pool := []\<rparr> \<and>
             length (shader_block_obj_pool dev) \<le> 1
           else r = first_obj dev e \<and> r \<noteq> None"
    proof (cases "env_calloc e = None \<or> env_buffer_create e = None \<or> \<not> env_buffer_map e")
      case True
      from out(1)[OF True] n have "r = None \<and> dev1 = dev" by simp
      then show ?thesis unfolding if_P[OF True] .
    next
      case nb: False
      show ?thesis
      proof (cases "first_obj dev e = None \<or>
                   (sz < arena_size_of c dev sz \<and> second_obj dev e = None)")
        case True
        from out(2)[OF nb True] n
        have "r = None \<and> dev1 = dev\<lparr>shader_block_obj_pool := []\<rparr> \<and>
             length (shader_block_obj_pool dev) \<le> 1" by simp
        then show ?thesis unfolding if_not_P[OF nb] if_P[OF True] .
      next
        case False
        from out(3)[OF nb False] n have "r = first_obj dev e \<and> r \<noteq> None" by simp
        then show ?thesis unfolding if_not_P[OF nb] if_not_P[OF False] .
      qed
    qed
    from 1 2 show ?thesis by blast
  qed
  from assms(5) show ?thesis
  proof (cases rule: radv_alloc_cases)
    case (hole k h)
    note ff = hole(3)[folded assms(4)] and al = hole(4)[folded assms(4)]
    from find_fit_SomeD[OF ff] obtain apre a apost pre hb post where
      loc: "locate (shader_arenas dev) h = Some (apre, a, apost, pre, hb, post)"
      by blast
    have 1: "r = None \<longrightarrow> dev1 = dev"
    proof (cases "sz = size_b hb")
      case True
      from al show ?thesis unfolding alloc_from_hole_exact[OF loc True] by auto
    next
      case False
      show ?thesis
      proof (cases "first_obj dev e")
        case None
        from al show ?thesis unfolding alloc_from_hole_nomem[OF loc False None] by auto
      next
        case (Some alp)
        from al show ?thesis unfolding alloc_from_hole_split[OF loc False Some] by auto
      qed
    qed
    have 2: "\<not> (ffs (search_word c dev sz) = 0 \<or>
           find_fit (shader_arenas dev) sz
             (shader_free_lists dev ! (ffs (search_word c dev sz) - 1)) = Some None)"
      using hole(1)[folded assms(4)] ff by simp
    from 1 2 show ?thesis by auto
  next
    case (nofit k)
    from new[OF nofit(4)[folded assms(4)]] show ?thesis .
  next
    case empty
    from new[OF empty(2)[folded assms(4)]] show ?thesis .
  qed
qed

theorem failed_allocation_state_witness:
  "consts_ok radv_consts \<and> reachable radv_consts ex_dev4 \<and> env_ok radv_consts ex_dev4 300000 ex_env4 \<and>
   300032 = align_u32 300000 (ALLOC_ALIGNMENT radv_consts) \<and>
   radv_alloc_shader_memory radv_consts ex_env4 ex_dev4 300000 9 = Some (None, ex_dev1) \<and>
   find_fit (shader_arenas ex_dev4) 300032
     (shader_free_lists ex_dev4 ! (ffs (search_word radv_consts ex_dev4 300032) - 1)) = Some None \<and>
   env_calloc ex_env4 \<noteq> None \<and> env_buffer_create ex_env4 \<noteq> None \<and> env_buffer_map ex_env4 \<and>
   300032 < arena_size_of radv_consts ex_dev4 300032 \<and> second_obj ex_dev4 ex_env4 = None \<and>
   ex_dev1 = ex_dev4\<lparr>shader_block_obj_pool := []\<rparr> \<and>
   length (shader_block_obj_pool ex_dev4) \<le> 1 \<and>
   shader_arenas ex_dev1 = shader_arenas ex_dev4 \<and> ws ex_dev1 = ws ex_dev4 \<and>
   shader_free_lists ex_dev1 = shader_free_lists ex_dev4 \<and>
   shader_free_list_mask ex_dev1 = shader_free_list_mask ex_dev4 \<and>
   shader_arena_shift ex_dev1 = shader_arena_shift ex_dev4 \<and>
   ffs (search_word radv_consts empty_dev 256) = 0 \<and>
   env_calloc (ex_env1\<lparr>env_calloc := None\<rparr>) = None \<and>
   radv_alloc_shader_memory radv_consts (ex_env1\<lparr>env_calloc := None\<rparr>) empty_dev 100 7 =
     Some (None, empty_dev)"
proof -
  have sz: "300032 = align_u32 300000 (ALLOC_ALIGNMENT radv_consts)" by (simp add: align_ex)
  have sz1: "256 = align_u32 100 (ALLOC_ALIGNMENT radv_consts)" by (simp add: align_ex)
  have ar: "shader_arenas ex_dev4 = shader_arenas ex_dev1" by (simp add: ex_dev4_def ex_dev1_def)
  have ff: "find_fit (shader_arenas ex_dev4) 300032
     (shader_free_lists ex_dev4 ! (ffs (search_word radv_consts ex_dev4 300032) - 1)) = Some None"
  proof -
    have k: "ffs (search_word radv_consts ex_dev4 300032) - 1 = 7" by (simp add: search_ex1 ffs_ex)
    have l: "shader_free_lists ex_dev4 ! 7 = [2]" by (simp add: ex_dev4_def)
    show ?thesis unfolding k l ar by (rule find_fit_ex1(2))
  qed
  have b: "env_calloc ex_env4 \<noteq> None" "env_buffer_create ex_env4 \<noteq> None" "env_buffer_map ex_env4"
    by (simp_all add: ex_env4_def)
  have nb: "\<not> (env_calloc ex_env4 = None \<or> env_buffer_create ex_env4 = None \<or> \<not> env_buffer_map ex_env4)"
    using b by simp
  have lt: "300032 < arena_size_of radv_consts ex_dev4 300032"
    by (simp add: arena_size_of_def u32_def ex_dev4_def)
  have so: "second_obj ex_dev4 ex_env4 = None"
    by (simp add: second_obj_eq ex_dev4_def ex_env4_def)
  have fd: "first_obj ex_dev4 ex_env4 = None \<or>
     (300032 < arena_size_of radv_consts ex_dev4 300032 \<and> second_obj ex_dev4 ex_env4 = None)"
    using lt so by simp
  note t = failed_allocation_state[OF consts_ok_radv reachable_dev4 env_ok_ex4 sz alloc_ex4]
  from t ff have "if env_calloc ex_env4 = None \<or> env_buffer_create ex_env4 = None \<or> \<not> env_buffer_map ex_env4 then
             (None :: nat option) = None \<and> ex_dev1 = ex_dev4
           else if first_obj ex_dev4 ex_env4 = None \<or>
                   (300032 < arena_size_of radv_consts ex_dev4 300032 \<and> second_obj ex_dev4 ex_env4 = None) then
             (None :: nat option) = None \<and> ex_dev1 = ex_dev4\<lparr>shader_block_obj_pool := []\<rparr> \<and>
             length (shader_block_obj_pool ex_dev4) \<le> 1
           else None = first_obj ex_dev4 ex_env4 \<and> (None :: nat option) \<noteq> None"
    by blast
  then have r1: "ex_dev1 = ex_dev4\<lparr>shader_block_obj_pool := []\<rparr> \<and>
             length (shader_block_obj_pool ex_dev4) \<le> 1"
    unfolding if_not_P[OF nb] if_P[OF fd] by simp
  from t have r2: "shader_arenas ex_dev1 = shader_arenas ex_dev4 \<and> ws ex_dev1 = ws ex_dev4 \<and>
   shader_free_lists ex_dev1 = shader_free_lists ex_dev4 \<and>
   shader_free_list_mask ex_dev1 = shader_free_list_mask ex_dev4 \<and>
   shader_arena_shift ex_dev1 = shader_arena_shift ex_dev4" by blast
  have f0: "ffs (search_word radv_consts empty_dev 256) = 0" by (simp add: search_empty ffs_0)
  have c0: "env_calloc (ex_env1\<lparr>env_calloc := None\<rparr>) = None" by simp
  have e1: "env_ok radv_consts empty_dev 100 (ex_env1\<lparr>env_calloc := None\<rparr>)"
    by (simp add: env_ok_def empty_dev_def ex_env1_def)
  have a1: "radv_alloc_shader_memory radv_consts (ex_env1\<lparr>env_calloc := None\<rparr>) empty_dev 100 7 =
     Some (None, empty_dev)"
    by (simp add: radv_alloc_eq align_ex search_empty ffs_0 alloc_new_arena_fail1(1)[OF c0])
  from failed_allocation_state[OF consts_ok_radv reachable_empty e1 sz1 a1] f0 c0
  have n: "(None :: nat option) = None" by blast
  show ?thesis
    using consts_ok_radv reachable_dev4 env_ok_ex4 sz alloc_ex4 ff b lt so r1 r2 f0 c0 a1
    by (intro conjI) simp_all
qed

theorem failed_allocation_state_counterexample:
  "reachable radv_consts ex_dev4 \<and> env_ok radv_consts ex_dev4 300000 ex_env4 \<and>
   env_malloc2 ex_env4 = None \<and>
   find_fit (shader_arenas ex_dev4) 300032 (shader_free_lists ex_dev4 ! 7) = Some None \<and>
   radv_alloc_shader_memory radv_consts ex_env4 ex_dev4 300000 9 = Some (None, ex_dev1) \<and>
   ex_dev1 \<noteq> ex_dev4 \<and>
   shader_block_obj_pool ex_dev4 = [3] \<and> shader_block_obj_pool ex_dev1 = [] \<and>
   3 \<notin> set (shader_block_obj_pool ex_dev1)"
proof -
  have ar: "shader_arenas ex_dev4 = shader_arenas ex_dev1" by (simp add: ex_dev4_def ex_dev1_def)
  have ff: "find_fit (shader_arenas ex_dev4) 300032 (shader_free_lists ex_dev4 ! 7) = Some None"
    unfolding ar using find_fit_ex1(2) by (simp add: ex_dev4_def)
  have p: "shader_block_obj_pool ex_dev4 = [3]" "shader_block_obj_pool ex_dev1 = []"
    by (simp_all add: ex_dev4_def ex_dev1_def)
  then have ne: "ex_dev1 \<noteq> ex_dev4" by auto
  have m: "env_malloc2 ex_env4 = None" by (simp add: ex_env4_def)
  show ?thesis using reachable_dev4 env_ok_ex4 m ff alloc_ex4 ne p by simp
qed

text \<open>
  C7. Round trip: an allocation that succeeds, followed at once by
  \<^verbatim>\<open>radv_free_shader_memory\<close> of the block returned, gives back the same arenas with the same
  blocks, the same live buffers, the same mask, and in every free list the same holes. The
  device is not as it was before in two respects besides the pool of block objects. When the
  allocation was served from a hole, that hole has moved to the end of its free list (the
  release files it again with \<^verbatim>\<open>list_addtail\<close>), the lists being the same otherwise. When
  the allocation created an arena, the free lists are as before and the counter
  \<^verbatim>\<open>shader_arena_shift\<close> is one larger, so that the next arena created is larger.
\<close>

theorem alloc_free_round_trip:
  assumes "consts_ok c" and "reachable c dev" and "env_ok c dev sz0 e"
    and "sz = align_u32 sz0 (ALLOC_ALIGNMENT c)"
    and "radv_alloc_shader_memory c e dev sz0 ptr = Some (Some p, dev1)"
  shows "\<exists>dev2. radv_free_shader_memory c dev1 p = Some dev2 \<and>
           shader_arenas dev2 = shader_arenas dev \<and> ws dev2 = ws dev \<and>
           map set (shader_free_lists dev2) = map set (shader_free_lists dev) \<and>
           shader_free_list_mask dev2 = shader_free_list_mask dev \<and>
           (\<forall>k h. ffs (search_word c dev sz) = Suc k \<and>
                  find_fit (shader_arenas dev) sz (shader_free_lists dev ! k) = Some (Some h) \<longrightarrow>
              shader_free_lists dev2 =
                (shader_free_lists dev)[k := removeAll h (shader_free_lists dev ! k) @ [h]] \<and>
              shader_arena_shift dev2 = shader_arena_shift dev) \<and>
           (ffs (search_word c dev sz) = 0 \<or>
            find_fit (shader_arenas dev) sz
              (shader_free_lists dev ! (ffs (search_word c dev sz) - 1)) = Some None \<longrightarrow>
              shader_free_lists dev2 = shader_free_lists dev \<and>
              shader_arena_shift dev2 = shader_arena_shift dev + 1)"
proof -
  note inv = reachable_inv[OF assms(1,2)]
  have inv1: "dev_inv c dev1" by (rule dev_inv_alloc[OF inv assms(1,3,5)])
  from roundtrip_arenas[OF assms(1) inv assms(3,5)] obtain dev2 where
    f: "radv_free_shader_memory c dev1 p = Some dev2"
    and a: "shader_arenas dev2 = shader_arenas dev" and w: "ws dev2 = ws dev"
    by (elim exE conjE)
  have inv2: "dev_inv c dev2" by (rule dev_inv_free[OF inv1 assms(1) f])
  note sl = same_arenas_same_lists[OF inv inv2 a]
  have paths: "(\<forall>k h. ffs (search_word c dev sz) = Suc k \<and>
                  find_fit (shader_arenas dev) sz (shader_free_lists dev ! k) = Some (Some h) \<longrightarrow>
              shader_free_lists dev2 =
                (shader_free_lists dev)[k := removeAll h (shader_free_lists dev ! k) @ [h]] \<and>
              shader_arena_shift dev2 = shader_arena_shift dev) \<and>
           (ffs (search_word c dev sz) = 0 \<or>
            find_fit (shader_arenas dev) sz
              (shader_free_lists dev ! (ffs (search_word c dev sz) - 1)) = Some None \<longrightarrow>
              shader_free_lists dev2 = shader_free_lists dev \<and>
              shader_arena_shift dev2 = shader_arena_shift dev + 1)"
    using assms(5)
  proof (cases rule: radv_alloc_cases)
    case (hole k h)
    note fs = hole(1)[folded assms(4)] and ff = hole(3)[folded assms(4)]
      and al = hole(4)[folded assms(4)]
    from dev_invD(4)[OF inv] hole(2) have k: "k < ALLOC_NUM_FREE_LISTS c"
      by (simp add: lists_ok_def)
    from find_fit_SomeD[OF ff] obtain apre a apost pre hb post where
      hin: "h \<in> set (shader_free_lists dev ! k)"
      and loc: "locate (shader_arenas dev) h = Some (apre, a, apost, pre, hb, post)"
      and ge: "\<not> size_b hb < sz"
      by auto
    from listed_hole(2)[OF inv k hin loc] have hl: "freelist hb = Linked"
      and cl: "get_size_class c (size_b hb) False = k" by simp_all
    have sh: "shader_arena_shift dev2 = shader_arena_shift dev"
      using free_shift[OF f] alloc_from_hole_same_arenas(1)[OF al] by simp
    have l: "shader_free_lists dev2 =
                (shader_free_lists dev)[k := removeAll h (shader_free_lists dev ! k) @ [h]]"
    proof (cases "sz = size_b hb")
      case True
      from al have al': "alloc_from_hole c e dev (size_b hb) ptr h = Some (Some p, dev1)"
        unfolding True .
      from al' have "p = h" unfolding alloc_from_hole_exact[OF loc refl] by simp
      with f have f': "radv_free_shader_memory c dev1 h = Some dev2" by simp
      show ?thesis by (rule roundtrip_lists_exact[OF inv inv1 loc hl cl hole(2) al' f'])
    next
      case False
      from ge have le: "sz \<le> size_b hb" by simp
      show ?thesis
      proof (cases "first_obj dev e")
        case None
        from al show ?thesis unfolding alloc_from_hole_nomem[OF loc False None] by simp
      next
        case (Some alp)
        from al have "p = alp" unfolding alloc_from_hole_split[OF loc False Some] by simp
        with f have f': "radv_free_shader_memory c dev1 alp = Some dev2" by simp
        show ?thesis
          by (rule roundtrip_lists_split[OF assms(1) inv inv1 loc hl cl hole(2) le False Some al f'])
      qed
    qed
    from fs ff l sh show ?thesis by auto
  next
    case (nofit k)
    note fs = nofit(1)[folded assms(4)] and ff = nofit(3)[folded assms(4)]
      and n = nofit(4)[folded assms(4)]
    from roundtrip_lists_new[OF inv inv1 n f] fs ff show ?thesis by auto
  next
    case empty
    note fs = empty(1)[folded assms(4)] and n = empty(2)[folded assms(4)]
    from roundtrip_lists_new[OF inv inv1 n f] fs show ?thesis by auto
  qed
  from f a w sl paths show ?thesis by blast
qed

theorem alloc_free_round_trip_witness:
  "consts_ok radv_consts \<and> reachable radv_consts ex_dev5 \<and> env_ok radv_consts ex_dev5 512 ex_env5 \<and>
   512 = align_u32 512 (ALLOC_ALIGNMENT radv_consts) \<and>
   radv_alloc_shader_memory radv_consts ex_env5 ex_dev5 512 8 = Some (Some 5, ex_dev8) \<and>
   ffs (search_word radv_consts ex_dev5 512) = Suc 7 \<and>
   find_fit (shader_arenas ex_dev5) 512 (shader_free_lists ex_dev5 ! 7) = Some (Some 2) \<and>
   radv_free_shader_memory radv_consts ex_dev8 5 = Some ex_dev9 \<and>
   shader_arenas ex_dev9 = shader_arenas ex_dev5 \<and> ws ex_dev9 = ws ex_dev5 \<and>
   shader_free_list_mask ex_dev9 = shader_free_list_mask ex_dev5 \<and>
   shader_free_lists ex_dev9 =
     (shader_free_lists ex_dev5)[7 := removeAll 2 (shader_free_lists ex_dev5 ! 7) @ [2]] \<and>
   shader_arena_shift ex_dev9 = shader_arena_shift ex_dev5 \<and>
   reachable radv_consts empty_dev \<and> env_ok radv_consts empty_dev 100 ex_env1 \<and>
   radv_alloc_shader_memory radv_consts ex_env1 empty_dev 100 7 = Some (Some 1, ex_dev1) \<and>
   ffs (search_word radv_consts empty_dev 256) = 0 \<and>
   radv_free_shader_memory radv_consts ex_dev1 1 = Some ex_dev1_freed \<and>
   shader_free_lists ex_dev1_freed = shader_free_lists empty_dev \<and>
   shader_arena_shift ex_dev1_freed = shader_arena_shift empty_dev + 1"
proof -
  have sz: "512 = align_u32 512 (ALLOC_ALIGNMENT radv_consts)" by (simp add: align_ex)
  have fs: "ffs (search_word radv_consts ex_dev5 512) = Suc 7" by (simp add: search_ex5 ffs_ex)
  have l: "shader_free_lists ex_dev5 ! 7 = [2, 4]" by (simp add: ex_dev5_def)
  have ff: "find_fit (shader_arenas ex_dev5) 512 (shader_free_lists ex_dev5 ! 7) = Some (Some 2)"
    unfolding l by (simp add: locate_ex5)
  from alloc_free_round_trip[OF consts_ok_radv reachable_dev5 env_ok_ex5 sz alloc_ex5]
  obtain d2 where f2: "radv_free_shader_memory radv_consts ex_dev8 5 = Some d2"
    and a2: "shader_arenas d2 = shader_arenas ex_dev5" and w2: "ws d2 = ws ex_dev5"
    and m2: "shader_free_list_mask d2 = shader_free_list_mask ex_dev5"
    and p2: "\<forall>k h. ffs (search_word radv_consts ex_dev5 512) = Suc k \<and>
            find_fit (shader_arenas ex_dev5) 512 (shader_free_lists ex_dev5 ! k) = Some (Some h) \<longrightarrow>
        shader_free_lists d2 =
          (shader_free_lists ex_dev5)[k := removeAll h (shader_free_lists ex_dev5 ! k) @ [h]] \<and>
        shader_arena_shift d2 = shader_arena_shift ex_dev5"
    by (elim exE conjE)
  from f2 have d2: "d2 = ex_dev9" unfolding free_ex5 by simp
  from p2[rule_format, OF conjI[OF fs ff]] a2 w2 m2
  have r1: "shader_arenas ex_dev9 = shader_arenas ex_dev5 \<and> ws ex_dev9 = ws ex_dev5 \<and>
     shader_free_list_mask ex_dev9 = shader_free_list_mask ex_dev5 \<and>
     shader_free_lists ex_dev9 =
       (shader_free_lists ex_dev5)[7 := removeAll 2 (shader_free_lists ex_dev5 ! 7) @ [2]] \<and>
     shader_arena_shift ex_dev9 = shader_arena_shift ex_dev5"
    unfolding d2 by simp
  have sz1: "256 = align_u32 100 (ALLOC_ALIGNMENT radv_consts)" by (simp add: align_ex)
  have f0: "ffs (search_word radv_consts empty_dev 256) = 0" by (simp add: search_empty ffs_0)
  from alloc_free_round_trip[OF consts_ok_radv reachable_empty env_ok_ex1 sz1 alloc_ex1]
  obtain d3 where f3: "radv_free_shader_memory radv_consts ex_dev1 1 = Some d3"
    and p3: "ffs (search_word radv_consts empty_dev 256) = 0 \<or>
        find_fit (shader_arenas empty_dev) 256
          (shader_free_lists empty_dev ! (ffs (search_word radv_consts empty_dev 256) - 1)) = Some None \<longrightarrow>
        shader_free_lists d3 = shader_free_lists empty_dev \<and>
        shader_arena_shift d3 = shader_arena_shift empty_dev + 1"
    by (elim exE conjE)
  from f3 have d3: "d3 = ex_dev1_freed" unfolding free_ex1 by simp
  from p3 f0 have r2: "shader_free_lists ex_dev1_freed = shader_free_lists empty_dev \<and>
        shader_arena_shift ex_dev1_freed = shader_arena_shift empty_dev + 1"
    unfolding d3 by blast
  show ?thesis
    using consts_ok_radv reachable_dev5 env_ok_ex5 sz alloc_ex5 fs ff free_ex5 r1
      reachable_empty env_ok_ex1 alloc_ex1 f0 free_ex1 r2
    by (intro conjI) simp_all
qed

theorem alloc_free_round_trip_counterexample:
  "reachable radv_consts ex_dev5 \<and> env_ok radv_consts ex_dev5 512 ex_env5 \<and>
   radv_alloc_shader_memory radv_consts ex_env5 ex_dev5 512 8 = Some (Some 5, ex_dev8) \<and>
   radv_free_shader_memory radv_consts ex_dev8 5 = Some ex_dev9 \<and>
   shader_free_lists ex_dev5 ! 7 = [2, 4] \<and> shader_free_lists ex_dev9 ! 7 = [4, 2] \<and>
   find_fit (shader_arenas ex_dev5) 512 (shader_free_lists ex_dev5 ! 7) = Some (Some 2) \<and>
   find_fit (shader_arenas ex_dev9) 512 (shader_free_lists ex_dev9 ! 7) = Some (Some 4) \<and>
   reachable radv_consts empty_dev \<and> env_ok radv_consts empty_dev 100 ex_env1 \<and>
   radv_alloc_shader_memory radv_consts ex_env1 empty_dev 100 7 = Some (Some 1, ex_dev1) \<and>
   radv_free_shader_memory radv_consts ex_dev1 1 = Some ex_dev1_freed \<and>
   shader_arena_shift empty_dev = 0 \<and> shader_arena_shift ex_dev1_freed = 1 \<and>
   arena_size_of radv_consts empty_dev 256 = 262144 \<and>
   arena_size_of radv_consts ex_dev1_freed 256 = 524288"
proof -
  have l5: "shader_free_lists ex_dev5 ! 7 = [2, 4]" by (simp add: ex_dev5_def)
  have l9: "shader_free_lists ex_dev9 ! 7 = [4, 2]" by (simp add: ex_dev9_def)
  have f5: "find_fit (shader_arenas ex_dev5) 512 (shader_free_lists ex_dev5 ! 7) = Some (Some 2)"
    unfolding l5 by (simp add: locate_ex5)
  have lo: "locate (shader_arenas ex_dev9) 4 =
     Some ([hd (shader_arenas ex_dev9)], hd (tl (shader_arenas ex_dev9)), [],
           [\<lparr>blk = 3, offset = 0, size_b = 300032, freelist = Unlinked 9\<rparr>],
           \<lparr>blk = 4, offset = 300032, size_b = 224256, freelist = Linked\<rparr>, [])"
    by (simp add: locate_def block_ptrs_def ex_dev9_def)
  have f9: "find_fit (shader_arenas ex_dev9) 512 (shader_free_lists ex_dev9 ! 7) = Some (Some 4)"
    unfolding l9 by (simp add: lo)
  have s: "shader_arena_shift empty_dev = 0" "shader_arena_shift ex_dev1_freed = 1"
    "arena_size_of radv_consts empty_dev 256 = 262144"
    "arena_size_of radv_consts ex_dev1_freed 256 = 524288"
    by (simp_all add: arena_size_of_def u32_def empty_dev_def ex_dev1_freed_def)
  show ?thesis
    using reachable_dev5 env_ok_ex5 alloc_ex5 free_ex5 l5 l9 f5 f9
      reachable_empty env_ok_ex1 alloc_ex1 free_ex1 s
    by (intro conjI) simp_all
qed



text \<open>
  C9. Owner resolution: \<^verbatim>\<open>radv_find_shader\<close> returns \<^verbatim>\<open>NULL\<close> when no allocation of any
  arena holds the address. When an allocation holds it, that allocation is the only block that
  does, and the result is decided by the pointer stored with it, read as the address of a
  pipeline: what is returned is not that pointer but the first shader of the array
  \<^verbatim>\<open>shaders\<close> of the pipeline whose code range \<open>[va, va + align(code_size, ALIGNMENT))\<close>
  holds the address, and \<^verbatim>\<open>NULL\<close> when no shader of the pipeline does. Where the pointer is
  not the address of a pipeline the call dereferences it all the same and its result is
  undefined. The buffers are assumed to lie within the 64-bit address space.
\<close>

theorem find_shader_resolution:
  assumes "consts_ok c" and "reachable c dev"
    and "\<forall>a\<in>set (shader_arenas dev). bo_va (bo a) + bo_size (bo a) < 2 ^ 64"
  shows "(\<not> (\<exists>a\<in>set (shader_arenas dev). \<exists>b\<in>set (entries a).
               freelist b \<noteq> Linked \<and> block_contains a b pc) \<longrightarrow>
            radv_find_shader c m dev pc = Some None) \<and>
         (\<forall>a\<in>set (shader_arenas dev). \<forall>b\<in>set (entries a). \<forall>p.
            freelist b = Unlinked p \<and> block_contains a b pc \<longrightarrow>
              (\<forall>a'\<in>set (shader_arenas dev). \<forall>b'\<in>set (entries a').
                  block_contains a' b' pc \<longrightarrow> blk b' = blk b) \<and>
              (case pipeline_at m p of
                 None \<Rightarrow> radv_find_shader c m dev pc = None
               | Some shs \<Rightarrow>
                   radv_find_shader c m dev pc = scan_shaders c (shader_at m) pc shs \<and>
                   ((\<forall>s\<in>set shs. s \<noteq> 0 \<longrightarrow> shader_at m s \<noteq> None) \<longrightarrow>
                      (\<forall>i<length shs.
                         shs ! i \<noteq> 0 \<and> shader_covers c m (shs ! i) pc \<and>
                         (\<forall>j<i. shs ! j \<noteq> 0 \<longrightarrow> \<not> shader_covers c m (shs ! j) pc) \<longrightarrow>
                           radv_find_shader c m dev pc = Some (Some (shs ! i))) \<and>
                      ((\<forall>s\<in>set shs. s \<noteq> 0 \<longrightarrow> \<not> shader_covers c m s pc) \<longrightarrow>
                         radv_find_shader c m dev pc = Some None)))) \<and>
         (\<forall>s. radv_find_shader c m dev pc = Some (Some s) \<longrightarrow>
            (\<exists>a\<in>set (shader_arenas dev). \<exists>b\<in>set (entries a). \<exists>p shs.
               freelist b = Unlinked p \<and> block_contains a b pc \<and>
               pipeline_at m p = Some shs \<and> s \<in> set shs \<and> s \<noteq> 0 \<and>
               shader_covers c m s pc))"
proof -
  note inv = reachable_inv[OF assms(1,2)]
  have hit: "block_hit a b pc \<longleftrightarrow> freelist b \<noteq> Linked \<and> block_contains a b pc"
    if "a \<in> set (shader_arenas dev)" "b \<in> set (entries a)" for a b
  proof -
    have t: "arena_tiles a" using dev_invD(1)[OF inv that(1)] by (simp add: arena_inv_def)
    from assms(3) that(1) have w: "bo_va (bo a) + bo_size (bo a) < 2 ^ 64" by blast
    show ?thesis by (rule block_hit_contains[OF t that(2) w])
  qed
  have 1: "radv_find_shader c m dev pc = Some None"
    if n: "\<not> (\<exists>a\<in>set (shader_arenas dev). \<exists>b\<in>set (entries a).
               freelist b \<noteq> Linked \<and> block_contains a b pc)"
  proof -
    have "\<forall>a\<in>set (shader_arenas dev). \<forall>b\<in>set (entries a). \<not> block_hit a b pc"
      using n hit by blast
    then show ?thesis unfolding radv_find_shader_def by (rule find_arenas_miss)
  qed
  have 2: "(\<forall>a'\<in>set (shader_arenas dev). \<forall>b'\<in>set (entries a').
                  block_contains a' b' pc \<longrightarrow> blk b' = blk b) \<and>
              (case pipeline_at m p of
                 None \<Rightarrow> radv_find_shader c m dev pc = None
               | Some shs \<Rightarrow>
                   radv_find_shader c m dev pc = scan_shaders c (shader_at m) pc shs \<and>
                   ((\<forall>s\<in>set shs. s \<noteq> 0 \<longrightarrow> shader_at m s \<noteq> None) \<longrightarrow>
                      (\<forall>i<length shs.
                         shs ! i \<noteq> 0 \<and> shader_covers c m (shs ! i) pc \<and>
                         (\<forall>j<i. shs ! j \<noteq> 0 \<longrightarrow> \<not> shader_covers c m (shs ! j) pc) \<longrightarrow>
                           radv_find_shader c m dev pc = Some (Some (shs ! i))) \<and>
                      ((\<forall>s\<in>set shs. s \<noteq> 0 \<longrightarrow> \<not> shader_covers c m s pc) \<longrightarrow>
                         radv_find_shader c m dev pc = Some None)))"
    if a: "a \<in> set (shader_arenas dev)" and b: "b \<in> set (entries a)"
      and fl: "freelist b = Unlinked p" and bc: "block_contains a b pc" for a b p
  proof -
    have u: "\<forall>a'\<in>set (shader_arenas dev). \<forall>b'\<in>set (entries a').
                  block_contains a' b' pc \<longrightarrow> blk b' = blk b"
    proof (intro ballI impI)
      fix a' b'
      assume "a' \<in> set (shader_arenas dev)" "b' \<in> set (entries a')" "block_contains a' b' pc"
      then show "blk b' = blk b"
        using containing_block_unique[OF inv a _ b _ bc] by blast
    qed
    note e = find_shader_at_block[OF inv assms(3) a b fl bc, of m]
    have r: "case pipeline_at m p of
                 None \<Rightarrow> radv_find_shader c m dev pc = None
               | Some shs \<Rightarrow>
                   radv_find_shader c m dev pc = scan_shaders c (shader_at m) pc shs \<and>
                   ((\<forall>s\<in>set shs. s \<noteq> 0 \<longrightarrow> shader_at m s \<noteq> None) \<longrightarrow>
                      (\<forall>i<length shs.
                         shs ! i \<noteq> 0 \<and> shader_covers c m (shs ! i) pc \<and>
                         (\<forall>j<i. shs ! j \<noteq> 0 \<longrightarrow> \<not> shader_covers c m (shs ! j) pc) \<longrightarrow>
                           radv_find_shader c m dev pc = Some (Some (shs ! i))) \<and>
                      ((\<forall>s\<in>set shs. s \<noteq> 0 \<longrightarrow> \<not> shader_covers c m s pc) \<longrightarrow>
                         radv_find_shader c m dev pc = Some None))"
    proof (cases "pipeline_at m p")
      case None
      then show ?thesis using e by simp
    next
      case (Some shs)
      from e Some have eq: "radv_find_shader c m dev pc = scan_shaders c (shader_at m) pc shs"
        by simp
      have f: "radv_find_shader c m dev pc = Some (Some (shs ! i))"
        if "\<forall>s\<in>set shs. s \<noteq> 0 \<longrightarrow> shader_at m s \<noteq> None" "i < length shs"
          "shs ! i \<noteq> 0" "shader_covers c m (shs ! i) pc"
          "\<forall>j<i. shs ! j \<noteq> 0 \<longrightarrow> \<not> shader_covers c m (shs ! j) pc" for i
        unfolding eq using that by (rule scan_shaders_first)
      have g: "radv_find_shader c m dev pc = Some None"
        if "\<forall>s\<in>set shs. s \<noteq> 0 \<longrightarrow> shader_at m s \<noteq> None"
          "\<forall>s\<in>set shs. s \<noteq> 0 \<longrightarrow> \<not> shader_covers c m s pc"
        unfolding eq using that by (intro scan_shaders_none) blast
      show ?thesis unfolding Some option.case using eq f g by blast
    qed
    from u r show ?thesis ..
  qed
  have 3: "\<exists>a\<in>set (shader_arenas dev). \<exists>b\<in>set (entries a). \<exists>p shs.
               freelist b = Unlinked p \<and> block_contains a b pc \<and>
               pipeline_at m p = Some shs \<and> s \<in> set shs \<and> s \<noteq> 0 \<and>
               shader_covers c m s pc"
    if f: "radv_find_shader c m dev pc = Some (Some s)" for s
  proof -
    from find_arenas_SomeD[OF f[unfolded radv_find_shader_def]] obtain a b p shs where
      a: "a \<in> set (shader_arenas dev)" and b: "b \<in> set (entries a)"
      and h: "block_hit a b pc" and fl: "freelist b = Unlinked p"
      and pl: "pipeline_at m p = Some shs"
      and sc: "scan_shaders c (shader_at m) pc shs = Some (Some s)"
      by blast
    from h hit[OF a b] have bc: "block_contains a b pc" by simp
    from scan_shaders_SomeD[OF sc] have s: "s \<in> set shs" "s \<noteq> 0" "shader_covers c m s pc"
      by (auto simp: shader_covers_def)
    from a b fl bc pl s show ?thesis by blast
  qed
  from 1 2 3 show ?thesis by blast
qed

theorem find_shader_resolution_witness:
  "consts_ok radv_consts \<and> reachable radv_consts ex_dev2 \<and>
   bo_va (bo (hd (shader_arenas ex_dev2))) + bo_size (bo (hd (shader_arenas ex_dev2))) < 2 ^ 64 \<and>
   freelist (entries (hd (shader_arenas ex_dev2)) ! 0) = Unlinked 7 \<and>
   block_contains (hd (shader_arenas ex_dev2)) (entries (hd (shader_arenas ex_dev2)) ! 0) 4100 \<and>
   pipeline_at ex_mem 7 = Some [0, 70, 71] \<and>
   shader_covers radv_consts ex_mem 70 4100 \<and> shader_covers radv_consts ex_mem 71 4100 \<and>
   radv_find_shader radv_consts ex_mem ex_dev2 4100 = Some (Some 70) \<and>
   freelist (entries (hd (shader_arenas ex_dev2)) ! 1) = Unlinked 8 \<and>
   block_contains (hd (shader_arenas ex_dev2)) (entries (hd (shader_arenas ex_dev2)) ! 1) 4700 \<and>
   pipeline_at ex_mem 8 = Some [80, 0] \<and> \<not> shader_covers radv_consts ex_mem 80 4700 \<and>
   radv_find_shader radv_consts ex_mem ex_dev2 4700 = Some None \<and>
   \<not> (\<exists>a\<in>set (shader_arenas ex_dev2). \<exists>b\<in>set (entries a).
        freelist b \<noteq> Linked \<and> block_contains a b 5000) \<and>
   radv_find_shader radv_consts ex_mem ex_dev2 5000 = Some None"
proof -
  let ?a = "hd (shader_arenas ex_dev2)"
  have w: "bo_va (bo ?a) + bo_size (bo ?a) < 2 ^ 64" by (simp add: ex_dev2_def ex_bo1_def)
  have a: "?a \<in> set (shader_arenas ex_dev2)" by (simp add: ex_dev2_def)
  have b0: "entries ?a ! 0 \<in> set (entries ?a)" and b1: "entries ?a ! 1 \<in> set (entries ?a)"
    by (simp_all add: ex_dev2_def)
  have p7: "pipeline_at ex_mem 7 = Some [0, 70, 71]" and p8: "pipeline_at ex_mem 8 = Some [80, 0]"
    by (simp_all add: ex_mem_def)
  have cv: "shader_covers radv_consts ex_mem 70 4100" "shader_covers radv_consts ex_mem 71 4100"
    "\<not> shader_covers radv_consts ex_mem 80 4700"
    by (simp_all add: shader_covers_def ex_mem_def u64_def align_u32_def u32_def radv_consts_def)
  have v7: "\<forall>s\<in>set [0, 70, 71]. s \<noteq> 0 \<longrightarrow> shader_at ex_mem s \<noteq> None"
    and v8: "\<forall>s\<in>set [80, 0]. s \<noteq> 0 \<longrightarrow> shader_at ex_mem s \<noteq> None"
    by (simp_all add: ex_mem_def)
  have n5: "\<not> (\<exists>a\<in>set (shader_arenas ex_dev2). \<exists>b\<in>set (entries a).
        freelist b \<noteq> Linked \<and> block_contains a b 5000)"
    by (simp add: ex_dev2_def block_contains_def block_start_def ex_bo1_def)
  note t1 = find_shader_resolution[OF consts_ok_radv reachable_dev2 fits_ex, of 4100 ex_mem]
  from t1[THEN conjunct2, THEN conjunct1, rule_format, OF a b0 conjI[OF contains_ex(3) contains_ex(1)]]
  have "case pipeline_at ex_mem 7 of
          None \<Rightarrow> radv_find_shader radv_consts ex_mem ex_dev2 4100 = None
        | Some shs \<Rightarrow>
            radv_find_shader radv_consts ex_mem ex_dev2 4100 =
              scan_shaders radv_consts (shader_at ex_mem) 4100 shs \<and>
            ((\<forall>s\<in>set shs. s \<noteq> 0 \<longrightarrow> shader_at ex_mem s \<noteq> None) \<longrightarrow>
               (\<forall>i<length shs.
                  shs ! i \<noteq> 0 \<and> shader_covers radv_consts ex_mem (shs ! i) 4100 \<and>
                  (\<forall>j<i. shs ! j \<noteq> 0 \<longrightarrow> \<not> shader_covers radv_consts ex_mem (shs ! j) 4100) \<longrightarrow>
                    radv_find_shader radv_consts ex_mem ex_dev2 4100 = Some (Some (shs ! i))) \<and>
               ((\<forall>s\<in>set shs. s \<noteq> 0 \<longrightarrow> \<not> shader_covers radv_consts ex_mem s 4100) \<longrightarrow>
                  radv_find_shader radv_consts ex_mem ex_dev2 4100 = Some None))"
    by (rule conjunct2)
  then have "\<forall>i<length [0::nat, 70, 71].
                  [0::nat, 70, 71] ! i \<noteq> 0 \<and> shader_covers radv_consts ex_mem ([0, 70, 71] ! i) 4100 \<and>
                  (\<forall>j<i. [0::nat, 70, 71] ! j \<noteq> 0 \<longrightarrow> \<not> shader_covers radv_consts ex_mem ([0, 70, 71] ! j) 4100) \<longrightarrow>
                    radv_find_shader radv_consts ex_mem ex_dev2 4100 = Some (Some ([0, 70, 71] ! i))"
    unfolding p7 option.case using v7 by blast
  from this[rule_format, of 1] cv(1)
  have r1: "radv_find_shader radv_consts ex_mem ex_dev2 4100 = Some (Some 70)" by simp
  note t2 = find_shader_resolution[OF consts_ok_radv reachable_dev2 fits_ex, of 4700 ex_mem]
  from t2[THEN conjunct2, THEN conjunct1, rule_format, OF a b1 conjI[OF contains_ex(4) contains_ex(2)]]
  have "case pipeline_at ex_mem 8 of
          None \<Rightarrow> radv_find_shader radv_consts ex_mem ex_dev2 4700 = None
        | Some shs \<Rightarrow>
            radv_find_shader radv_consts ex_mem ex_dev2 4700 =
              scan_shaders radv_consts (shader_at ex_mem) 4700 shs \<and>
            ((\<forall>s\<in>set shs. s \<noteq> 0 \<longrightarrow> shader_at ex_mem s \<noteq> None) \<longrightarrow>
               (\<forall>i<length shs.
                  shs ! i \<noteq> 0 \<and> shader_covers radv_consts ex_mem (shs ! i) 4700 \<and>
                  (\<forall>j<i. shs ! j \<noteq> 0 \<longrightarrow> \<not> shader_covers radv_consts ex_mem (shs ! j) 4700) \<longrightarrow>
                    radv_find_shader radv_consts ex_mem ex_dev2 4700 = Some (Some (shs ! i))) \<and>
               ((\<forall>s\<in>set shs. s \<noteq> 0 \<longrightarrow> \<not> shader_covers radv_consts ex_mem s 4700) \<longrightarrow>
                  radv_find_shader radv_consts ex_mem ex_dev2 4700 = Some None))"
    by (rule conjunct2)
  then have "(\<forall>s\<in>set [80::nat, 0]. s \<noteq> 0 \<longrightarrow> \<not> shader_covers radv_consts ex_mem s 4700) \<longrightarrow>
                  radv_find_shader radv_consts ex_mem ex_dev2 4700 = Some None"
    unfolding p8 option.case using v8 by blast
  with cv(3) have r2: "radv_find_shader radv_consts ex_mem ex_dev2 4700 = Some None" by simp
  note t3 = find_shader_resolution[OF consts_ok_radv reachable_dev2 fits_ex, of 5000 ex_mem]
  from t3 n5 have r3: "radv_find_shader radv_consts ex_mem ex_dev2 5000 = Some None" by blast
  show ?thesis
    using consts_ok_radv reachable_dev2 w contains_ex p7 p8 cv r1 r2 n5 r3
    by (intro conjI) simp_all
qed

theorem find_shader_resolution_counterexample:
  "reachable radv_consts ex_dev2 \<and>
   freelist (entries (hd (shader_arenas ex_dev2)) ! 0) = Unlinked 7 \<and>
   block_contains (hd (shader_arenas ex_dev2)) (entries (hd (shader_arenas ex_dev2)) ! 0) 4100 \<and>
   radv_find_shader radv_consts ex_mem ex_dev2 4100 = Some (Some 70) \<and> (70::nat) \<noteq> 7 \<and>
   freelist (entries (hd (shader_arenas ex_dev2)) ! 1) = Unlinked 8 \<and>
   block_contains (hd (shader_arenas ex_dev2)) (entries (hd (shader_arenas ex_dev2)) ! 1) 4700 \<and>
   radv_find_shader radv_consts ex_mem ex_dev2 4700 = Some None"
  using reachable_dev2 contains_ex find_ex(1,2) by simp

text \<open>
  C10. Free-list mask invariant: from the initialised device, after every allocation and
  release, bit \<open>k\<close> of \<^verbatim>\<open>shader_free_list_mask\<close> is set exactly when free list \<open>k\<close> is not
  empty; so the bit scan of an allocation finds a class exactly when a list at or above the
  wanted class is not empty, and the class found is the lowest such.
\<close>

theorem free_list_mask_invariant:
  assumes "consts_ok c" and "reachable c dev"
  shows "(\<forall>k<ALLOC_NUM_FREE_LISTS c.
            bit (shader_free_list_mask dev) k \<longleftrightarrow> shader_free_lists dev ! k \<noteq> []) \<and>
         (ffs (search_word c dev sz) \<noteq> 0 \<longleftrightarrow>
            (\<exists>k. get_size_class c sz True \<le> k \<and> k < ALLOC_NUM_FREE_LISTS c \<and>
                 shader_free_lists dev ! k \<noteq> [])) \<and>
         (\<forall>k. ffs (search_word c dev sz) = Suc k \<longrightarrow>
            get_size_class c sz True \<le> k \<and> k < ALLOC_NUM_FREE_LISTS c \<and>
            shader_free_lists dev ! k \<noteq> [] \<and>
            (\<forall>j<k. get_size_class c sz True \<le> j \<longrightarrow> shader_free_lists dev ! j = []))"
proof -
  note inv = reachable_inv[OF assms]
  note sb = search_word_bit[OF inv assms(1)]
  have m: "\<And>k. bit (shader_free_list_mask dev) k \<longleftrightarrow>
      k < ALLOC_NUM_FREE_LISTS c \<and> shader_free_lists dev ! k \<noteq> []"
    using dev_invD(5)[OF inv] by (simp add: mask_ok_def)
  have 1: "\<forall>k<ALLOC_NUM_FREE_LISTS c.
            bit (shader_free_list_mask dev) k \<longleftrightarrow> shader_free_lists dev ! k \<noteq> []"
    using m by simp
  have 2: "ffs (search_word c dev sz) \<noteq> 0 \<longleftrightarrow>
            (\<exists>k. get_size_class c sz True \<le> k \<and> k < ALLOC_NUM_FREE_LISTS c \<and>
                 shader_free_lists dev ! k \<noteq> [])"
    unfolding ffs_zero sb by blast
  have 3: "get_size_class c sz True \<le> k \<and> k < ALLOC_NUM_FREE_LISTS c \<and>
            shader_free_lists dev ! k \<noteq> [] \<and>
            (\<forall>j<k. get_size_class c sz True \<le> j \<longrightarrow> shader_free_lists dev ! j = [])"
    if "ffs (search_word c dev sz) = Suc k" for k
  proof -
    from that have b: "bit (search_word c dev sz) k" "\<forall>j<k. \<not> bit (search_word c dev sz) j"
      unfolding ffs_Suc by simp_all
    have "shader_free_lists dev ! j = []" if "j < k" "get_size_class c sz True \<le> j" for j
    proof -
      have "j < ALLOC_NUM_FREE_LISTS c" using \<open>j < k\<close> b(1) unfolding sb by simp
      then show ?thesis using b(2) that unfolding sb by blast
    qed
    then show ?thesis using b(1) unfolding sb by blast
  qed
  show ?thesis using 1 2 3 by blast
qed

theorem free_list_mask_invariant_witness:
  "consts_ok radv_consts \<and> reachable radv_consts ex_dev1 \<and>
   7 < ALLOC_NUM_FREE_LISTS radv_consts \<and>
   bit (shader_free_list_mask ex_dev1) 7 \<and> shader_free_lists ex_dev1 ! 7 \<noteq> [] \<and>
   \<not> bit (shader_free_list_mask ex_dev1) 0 \<and> shader_free_lists ex_dev1 ! 0 = [] \<and>
   ffs (search_word radv_consts ex_dev1 512) = Suc 7 \<and>
   get_size_class radv_consts 512 True \<le> 7"
proof -
  note t = free_list_mask_invariant[OF consts_ok_radv reachable_dev1, of 512]
  have f: "ffs (search_word radv_consts ex_dev1 512) = Suc 7" by (simp add: search_ex1 ffs_ex)
  have n: "7 < ALLOC_NUM_FREE_LISTS radv_consts" "0 < ALLOC_NUM_FREE_LISTS radv_consts" by simp_all
  have b: "bit (shader_free_list_mask ex_dev1) 7 \<longleftrightarrow> shader_free_lists ex_dev1 ! 7 \<noteq> []"
    "bit (shader_free_list_mask ex_dev1) 0 \<longleftrightarrow> shader_free_lists ex_dev1 ! 0 \<noteq> []"
    using t n by blast+
  have ne: "shader_free_lists ex_dev1 ! 7 \<noteq> []" "shader_free_lists ex_dev1 ! 0 = []"
    by (simp_all add: ex_dev1_def)
  show ?thesis using f b ne n(1) consts_ok_radv reachable_dev1 by (simp add: class_ex)
qed

end
